theory Spec2Isabelle
  imports Main "HOL-Library.Multiset"
begin

section \<open>Facelet state and permutation engine (src/js/cube-state.js)\<close>

text \<open>
  The six face labels that key the \<open>state\<close> object, and the six colour strings that
  \<open>reset\<close> writes.  A JavaScript array of stickers is a list; the \<open>state\<close> object, which
  always has exactly the keys U, D, R, L, F, B (in that insertion order), is a record
  with one list per key.  The sticker type is a parameter: the engine only copies and
  compares stickers.
\<close>

datatype face = U | D | R | L | F | B

datatype color = white | yellow | red | orange | blue | green

record 'a facelets =
  faceU :: "'a list"
  faceD :: "'a list"
  faceR :: "'a list"
  faceL :: "'a list"
  faceF :: "'a list"
  faceB :: "'a list"

text \<open>\<open>this.state[face]\<close> read and written.\<close>

fun state_at :: "'a facelets \<Rightarrow> face \<Rightarrow> 'a list" where
  "state_at st U = faceU st"
| "state_at st D = faceD st"
| "state_at st R = faceR st"
| "state_at st L = faceL st"
| "state_at st F = faceF st"
| "state_at st B = faceB st"

fun state_upd :: "face \<Rightarrow> 'a list \<Rightarrow> 'a facelets \<Rightarrow> 'a facelets" where
  "state_upd U xs st = st\<lparr>faceU := xs\<rparr>"
| "state_upd D xs st = st\<lparr>faceD := xs\<rparr>"
| "state_upd R xs st = st\<lparr>faceR := xs\<rparr>"
| "state_upd L xs st = st\<lparr>faceL := xs\<rparr>"
| "state_upd F xs st = st\<lparr>faceF := xs\<rparr>"
| "state_upd B xs st = st\<lparr>faceB := xs\<rparr>"

text \<open>
  The object a \<open>CubeState\<close> instance is: the sticker arrays, the move history and the
  cached completion flag.
\<close>

record 'a cube_state =
  state :: "'a facelets"
  moveHistory :: "string list"
  isCompleted :: bool

text \<open>
  \<open>rotateFaceArray(faceArray, clockwise)\<close>: nine assignments from a copy \<open>temp\<close> of the
  array.  Every array of the engine has nine stickers, so every index read or written
  is in range; the theorems below carry that length as a hypothesis.
\<close>

definition rotateFaceArray :: "'a list \<Rightarrow> bool \<Rightarrow> 'a list" where
  "rotateFaceArray faceArray clockwise =
     (let temp = faceArray in
      if clockwise then
        faceArray[0 := temp ! 6, 1 := temp ! 3, 2 := temp ! 0,
                  3 := temp ! 7, 4 := temp ! 4, 5 := temp ! 1,
                  6 := temp ! 8, 7 := temp ! 5, 8 := temp ! 2]
      else
        faceArray[0 := temp ! 2, 1 := temp ! 5, 2 := temp ! 8,
                  3 := temp ! 1, 4 := temp ! 4, 5 := temp ! 7,
                  6 := temp ! 0, 7 := temp ! 3, 8 := temp ! 6])"

text \<open>
  The table \<open>rotations\<close> of \<open>rotateAdjacentEdges\<close>: for each face the pair
  (\<open>clockwise[0]\<close>, \<open>counterClockwise[0]\<close>) of four (neighbour face, three indices)
  tuples.  Every face has an entry, so the guard \<open>if (!rotation) return\<close> never fires
  for a value of type \<open>face\<close>.
\<close>

type_synonym strip = "face \<times> nat list"

fun rotations :: "face \<Rightarrow> strip list \<times> strip list" where
  "rotations R =
     ([(U, [2, 5, 8]), (F, [2, 5, 8]), (D, [2, 5, 8]), (B, [6, 3, 0])],
      [(U, [2, 5, 8]), (B, [6, 3, 0]), (D, [2, 5, 8]), (F, [2, 5, 8])])"
| "rotations L =
     ([(U, [0, 3, 6]), (B, [8, 5, 2]), (D, [0, 3, 6]), (F, [0, 3, 6])],
      [(U, [0, 3, 6]), (F, [0, 3, 6]), (D, [0, 3, 6]), (B, [8, 5, 2])])"
| "rotations U =
     ([(B, [0, 1, 2]), (R, [0, 1, 2]), (F, [0, 1, 2]), (L, [0, 1, 2])],
      [(B, [0, 1, 2]), (L, [0, 1, 2]), (F, [0, 1, 2]), (R, [0, 1, 2])])"
| "rotations D =
     ([(F, [6, 7, 8]), (R, [6, 7, 8]), (B, [6, 7, 8]), (L, [6, 7, 8])],
      [(F, [6, 7, 8]), (L, [6, 7, 8]), (B, [6, 7, 8]), (R, [6, 7, 8])])"
| "rotations F =
     ([(U, [6, 7, 8]), (R, [0, 3, 6]), (D, [2, 1, 0]), (L, [8, 5, 2])],
      [(U, [6, 7, 8]), (L, [8, 5, 2]), (D, [2, 1, 0]), (R, [0, 3, 6])])"
| "rotations B =
     ([(U, [2, 1, 0]), (L, [0, 3, 6]), (D, [6, 7, 8]), (R, [8, 5, 2])],
      [(U, [2, 1, 0]), (R, [8, 5, 2]), (D, [6, 7, 8]), (L, [0, 3, 6])])"

text \<open>\<open>this.state[f][idx] = v\<close>.\<close>

definition set_sticker :: "face \<Rightarrow> nat \<Rightarrow> 'a \<Rightarrow> 'a facelets \<Rightarrow> 'a facelets" where
  "set_sticker f idx v st = state_upd f ((state_at st f)[idx := v]) st"

text \<open>The stickers a tuple (face, indices) names, in the tuple's index order.\<close>

definition read_strip :: "'a facelets \<Rightarrow> strip \<Rightarrow> 'a list" where
  "read_strip st tp = map (\<lambda>idx. state_at st (fst tp) ! idx) (snd tp)"

text \<open>
  The inner loop of \<open>rotateAdjacentEdges\<close>: for each \<open>j\<close>,
  \<open>state[toFace][toIndices[j]] = state[fromFace][fromIndices[j]]\<close>, reading the
  state as the earlier assignments left it.
\<close>

definition copy_strip :: "strip \<Rightarrow> strip \<Rightarrow> 'a facelets \<Rightarrow> 'a facelets" where
  "copy_strip from to st =
     (let (fromFace, fromIndices) = from; (toFace, toIndices) = to in
      fold (\<lambda>j s. set_sticker toFace (toIndices ! j) (state_at s fromFace ! (fromIndices ! j)) s)
        [0..<length fromIndices] st)"

text \<open>
  \<open>rotateAdjacentEdges(face, clockwise)\<close>: save the stickers of \<open>cycle[0]\<close> in
  \<open>temp\<close>, copy \<open>cycle[i + 1]\<close> onto \<open>cycle[i]\<close> for \<open>i = 0, 1, 2\<close>, then write
  \<open>temp\<close> onto the last tuple.
\<close>

definition rotateAdjacentEdges :: "face \<Rightarrow> bool \<Rightarrow> 'a facelets \<Rightarrow> 'a facelets" where
  "rotateAdjacentEdges fc clockwise st =
     (let rotation = rotations fc;
          cycle = (if clockwise then fst rotation else snd rotation);
          temp = read_strip st (cycle ! 0);
          st1 = fold (\<lambda>i s. copy_strip (cycle ! (i + 1)) (cycle ! i) s)
                  [0..<length cycle - 1] st;
          (lastFace, lastIndices) = cycle ! (length cycle - 1)
      in fold (\<lambda>i s. set_sticker lastFace (lastIndices ! i) (temp ! i) s)
           [0..<length lastIndices] st1)"

text \<open>\<open>rotateFace(face, clockwise)\<close>: the face's own array first, then the strips.\<close>

definition rotateFace :: "face \<Rightarrow> bool \<Rightarrow> 'a facelets \<Rightarrow> 'a facelets" where
  "rotateFace fc clockwise st =
     rotateAdjacentEdges fc clockwise
       (state_upd fc (rotateFaceArray (state_at st fc) clockwise) st)"

subsection \<open>Move notation\<close>

text \<open>
  Strings are lists of 8-bit characters.  \<open>trim\<close> removes the white space and line
  terminators of that range from both ends; \<open>toUpperCase\<close> maps a..z to A..Z (no
  other character of the range is mapped to one of the characters the pattern
  accepts).
\<close>

text \<open>
  A string literal cannot hold an apostrophe, so the counter-clockwise notation of a
  face is written \<open>prime ''R''\<close> for the source's \<open>"R'"\<close>.
\<close>

abbreviation prime :: "string \<Rightarrow> string" where
  "prime f \<equiv> f @ [CHR 0x27]"

definition is_space :: "char \<Rightarrow> bool" where
  "is_space c = (c \<in> set [CHR 0x09, CHR 0x0A, CHR 0x0B, CHR 0x0C, CHR 0x0D, CHR 0x20, CHR 0xA0])"

definition trim :: "string \<Rightarrow> string" where
  "trim s = rev (dropWhile is_space (rev (dropWhile is_space s)))"

definition upper_char :: "char \<Rightarrow> char" where
  "upper_char c =
     (let n = (of_char c :: nat) in if 97 \<le> n \<and> n \<le> 122 then char_of (n - 32) else c)"

definition toUpperCase :: "string \<Rightarrow> string" where
  "toUpperCase s = map upper_char s"

fun face_of_char :: "char \<Rightarrow> face option" where
  "face_of_char c =
     (if c = CHR ''R'' then Some R else if c = CHR ''L'' then Some L
      else if c = CHR ''U'' then Some U else if c = CHR ''D'' then Some D
      else if c = CHR ''F'' then Some F else if c = CHR ''B'' then Some B
      else None)"

fun face_name :: "face \<Rightarrow> string" where
  "face_name U = ''U''"
| "face_name D = ''D''"
| "face_name R = ''R''"
| "face_name L = ''L''"
| "face_name F = ''F''"
| "face_name B = ''B''"

text \<open>
  \<open>cleanMove.match(/^([RLUDFB])(['2]?)$/)\<close>: the two groups, the face and the
  modifier (empty, an apostrophe or a 2), or no match.
\<close>

fun match_move :: "string \<Rightarrow> (face \<times> string) option" where
  "match_move [f] = map_option (\<lambda>fc. (fc, [])) (face_of_char f)"
| "match_move [f, m] =
     (if m = CHR 0x27 \<or> m = CHR ''2''
      then map_option (\<lambda>fc. (fc, [m])) (face_of_char f) else None)"
| "match_move _ = None"

record moveData =
  face :: face
  clockwise :: bool
  double :: bool

definition parseMove :: "string \<Rightarrow> moveData option" where
  "parseMove move =
     (let cleanMove = toUpperCase (trim move) in
      case match_move cleanMove of
        None \<Rightarrow> None
      | Some (fc, modifier) \<Rightarrow>
          Some \<lparr>face = fc, clockwise = (modifier \<noteq> [CHR 0x27]), double = (modifier = ''2'')\<rparr>)"

subsection \<open>Engine operations\<close>

text \<open>
  \<open>checkCompleted()\<close>: every face's stickers equal that face's first sticker.  It
  returns the answer and caches it in \<open>isCompleted\<close>.
\<close>

definition face_uniform :: "'a list \<Rightarrow> bool" where
  "face_uniform colors = (let firstColor = colors ! 0 in list_all (\<lambda>color. color = firstColor) colors)"

definition all_faces_uniform :: "'a facelets \<Rightarrow> bool" where
  "all_faces_uniform st = list_all (\<lambda>f. face_uniform (state_at st f)) [U, D, R, L, F, B]"

definition checkCompleted :: "'a cube_state \<Rightarrow> bool \<times> 'a cube_state" where
  "checkCompleted s = (let b = all_faces_uniform (state s) in (b, s\<lparr>isCompleted := b\<rparr>))"

text \<open>\<open>executeMove(move)\<close>: the success flag and the object afterwards.\<close>

definition executeMove :: "string \<Rightarrow> 'a cube_state \<Rightarrow> bool \<times> 'a cube_state" where
  "executeMove move s =
     (case parseMove move of
        None \<Rightarrow> (False, s)
      | Some moveData \<Rightarrow>
          (let fc = face moveData; cw = clockwise moveData;
               st1 = (if double moveData
                      then rotateFace fc cw (rotateFace fc cw (state s))
                      else rotateFace fc cw (state s));
               s1 = s\<lparr>state := st1, moveHistory := moveHistory s @ [move]\<rparr>
           in (True, snd (checkCompleted s1))))"

definition getReverseMove :: "string \<Rightarrow> string" where
  "getReverseMove move =
     (case parseMove move of
        None \<Rightarrow> []
      | Some moveData \<Rightarrow>
          if double moveData then face_name (face moveData) @ ''2''
          else if clockwise moveData then face_name (face moveData) @ [CHR 0x27]
          else face_name (face moveData))"

text \<open>
  \<open>undoLastMove()\<close>: pops the last notation, replays its inverse on an emptied
  history, puts the shortened history back and recomputes completion.
\<close>

definition undoLastMove :: "'a cube_state \<Rightarrow> bool \<times> 'a cube_state" where
  "undoLastMove s =
     (if length (moveHistory s) = 0 then (False, s)
      else
        (let lastMove = last (moveHistory s);
             reverseMove = getReverseMove lastMove;
             tempHistory = butlast (moveHistory s);
             s1 = snd (executeMove reverseMove (s\<lparr>moveHistory := []\<rparr>));
             s2 = s1\<lparr>moveHistory := tempHistory\<rparr>
         in (True, snd (checkCompleted s2))))"

text \<open>\<open>reset()\<close> overwrites all three fields; the constructor calls it.\<close>

definition solved_facelets :: "color facelets" where
  "solved_facelets =
     \<lparr>faceU = replicate 9 white, faceD = replicate 9 yellow, faceR = replicate 9 red,
      faceL = replicate 9 orange, faceF = replicate 9 blue, faceB = replicate 9 green\<rparr>"

definition reset :: "color cube_state \<Rightarrow> color cube_state" where
  "reset s = s\<lparr>state := solved_facelets, moveHistory := [], isCompleted := True\<rparr>"

definition new_CubeState :: "color cube_state" where
  "new_CubeState = \<lparr>state = solved_facelets, moveHistory = [], isCompleted = True\<rparr>"

text \<open>\<open>getStateCopy()\<close> and \<open>setState(newState)\<close> on values: a copy of a list is the list.\<close>

definition getStateCopy :: "'a cube_state \<Rightarrow> 'a facelets" where
  "getStateCopy s = state s"

definition setState :: "'a facelets \<Rightarrow> 'a cube_state \<Rightarrow> 'a cube_state" where
  "setState newState s = snd (checkCompleted (s\<lparr>state := newState\<rparr>))"

definition getMoveHistory :: "'a cube_state \<Rightarrow> string list" where
  "getMoveHistory s = moveHistory s"

text \<open>Well-formed sticker arrays: nine stickers on each of the six faces.\<close>

definition nine_each :: "'a facelets \<Rightarrow> bool" where
  "nine_each st = list_all (\<lambda>f. length (state_at st f) = 9) [U, D, R, L, F, B]"

text \<open>
  All 54 stickers, face by face in the key order of the \<open>state\<close> object, and the number
  of stickers that carry a given colour.
\<close>

definition all_stickers :: "'a facelets \<Rightarrow> 'a list" where
  "all_stickers st = concat (map (state_at st) [U, D, R, L, F, B])"

definition count_color :: "'a \<Rightarrow> 'a facelets \<Rightarrow> nat" where
  "count_color c st = count_list (all_stickers st) c"

text \<open>
  The objects a sequence of engine operations produces: the constructor builds the
  solved cube, and \<open>executeMove\<close> (with any argument string), \<open>undoLastMove\<close> and
  \<open>reset\<close> lead from one object state to the next.
\<close>

inductive reachable :: "color cube_state \<Rightarrow> bool" where
  constructed: "reachable new_CubeState"
| executed: "reachable s \<Longrightarrow> reachable (snd (executeMove move s))"
| undone: "reachable s \<Longrightarrow> reachable (snd (undoLastMove s))"
| was_reset: "reachable s \<Longrightarrow> reachable (reset s)"

text \<open>
  The neighbour-strip lists as the specification prints them (section 4.2), to be
  compared with what \<open>rotateAdjacentEdges\<close> does to the stickers they name.
\<close>

fun spec_neighbor_strips :: "face \<Rightarrow> strip list" where
  "spec_neighbor_strips R = [(U, [2, 5, 8]), (F, [2, 5, 8]), (D, [2, 5, 8]), (B, [6, 3, 0])]"
| "spec_neighbor_strips L = [(U, [0, 3, 6]), (B, [8, 5, 2]), (D, [0, 3, 6]), (F, [0, 3, 6])]"
| "spec_neighbor_strips U = [(B, [0, 1, 2]), (R, [0, 1, 2]), (F, [0, 1, 2]), (L, [0, 1, 2])]"
| "spec_neighbor_strips D = [(F, [6, 7, 8]), (R, [6, 7, 8]), (B, [6, 7, 8]), (L, [6, 7, 8])]"
| "spec_neighbor_strips F = [(U, [6, 7, 8]), (R, [0, 3, 6]), (D, [2, 1, 0]), (L, [8, 5, 2])]"
| "spec_neighbor_strips B = [(U, [2, 1, 0]), (L, [0, 3, 6]), (D, [6, 7, 8]), (R, [8, 5, 2])]"

section \<open>Scramble generator (class ScrambleGenerator)\<close>

definition baseMoves :: "string list" where
  "baseMoves = [''R'', ''L'', ''U'', ''D'', ''F'', ''B'']"

definition modifiers :: "string list" where
  "modifiers = [[], [CHR 0x27], ''2'']"

definition oppositeFaces :: "string \<rightharpoonup> string" where
  "oppositeFaces = map_of [(''R'', ''L''), (''L'', ''R''), (''U'', ''D''), (''D'', ''U''),
                           (''F'', ''B''), (''B'', ''F'')]"

definition defaultLength :: int where
  "defaultLength = 20"

text \<open>
  \<open>extractFace(move)\<close>: \<open>null\<close> (here \<open>None\<close>) for the empty string, else its first
  character as a string.
\<close>

definition extractFace :: "string \<Rightarrow> string option" where
  "extractFace move = (if move = [] then None else Some (take 1 move))"

text \<open>
  \<open>isValidMove(move, lastMove, lastLastMove)\<close>.  The comparisons are strict: a missing
  entry of \<open>oppositeFaces\<close> is \<open>undefined\<close>, which equals neither \<open>null\<close> nor a string.
\<close>

definition isValidMove :: "string \<Rightarrow> string option \<Rightarrow> string option \<Rightarrow> bool" where
  "isValidMove move lastMove lastLastMove =
     (let currentFace = extractFace move;
          opposite = (case currentFace of None \<Rightarrow> None | Some f \<Rightarrow> oppositeFaces f)
      in if currentFace = lastMove then False
         else if (case opposite of None \<Rightarrow> False | Some opp \<Rightarrow> lastMove = Some opp)
                 \<and> currentFace = lastLastMove then False
         else True)"

text \<open>
  The random source is a sequence \<open>rnd\<close> of draws and a position \<open>k\<close> in it.
  \<open>Math.floor(Math.random() * n)\<close> is \<open>rnd k mod n\<close>, and \<open>Math.random() < 0.5\<close> is
  \<open>rnd k mod 2 = 0\<close>; as \<open>rnd\<close> ranges over all sequences, every outcome of the draws is
  covered.

  The \<open>do ... while\<close> loop of \<open>generateScramble\<close>: it returns the last candidate, the
  number of attempts made and the position in the random sequence.
\<close>

function draw_move ::
  "(nat \<Rightarrow> nat) \<Rightarrow> string \<Rightarrow> string option \<Rightarrow> string option \<Rightarrow> nat \<Rightarrow> nat
     \<Rightarrow> string \<times> nat \<times> nat" where
  "draw_move rnd difficulty lastMove lastLastMove attempts k =
     (let fc = baseMoves ! (rnd k mod length baseMoves);
          modifier =
            (if difficulty = ''easy''
             then (if rnd (k + 1) mod 2 = 0 then [] else [CHR 0x27])
             else modifiers ! (rnd (k + 1) mod length modifiers));
          move = fc @ modifier;
          attempts1 = attempts + 1
      in if attempts1 < 100 \<and> \<not> isValidMove move lastMove lastLastMove
         then draw_move rnd difficulty lastMove lastLastMove attempts1 (k + 2)
         else (move, attempts1, k + 2))"
  by pat_completeness auto
termination
  by (relation "measure (\<lambda>(rnd, difficulty, lastMove, lastLastMove, attempts, k). 100 - attempts)")
    auto

declare draw_move.simps [simp del]

text \<open>
  The \<open>for\<close> loop over the positions; the first argument is the number of positions
  still to fill.  When the attempts are used up the loop breaks and the sequence
  built so far is returned.
\<close>

fun scramble_loop ::
  "(nat \<Rightarrow> nat) \<Rightarrow> string \<Rightarrow> nat \<Rightarrow> string list \<Rightarrow> string option \<Rightarrow> string option \<Rightarrow> nat
     \<Rightarrow> string list" where
  "scramble_loop rnd difficulty 0 scramble lastMove lastLastMove k = scramble"
| "scramble_loop rnd difficulty (Suc left) scramble lastMove lastLastMove k =
     (let (move, attempts, k1) = draw_move rnd difficulty lastMove lastLastMove 0 k in
      if attempts \<ge> 100 then scramble
      else scramble_loop rnd difficulty left (scramble @ [move]) (extractFace move) lastMove k1)"

text \<open>
  \<open>generateScramble(length, difficulty)\<close>.  The length is \<open>None\<close> for \<open>null\<close>; \<open>null\<close>
  and 0 are the falsy lengths, replaced by the difficulty's default.  A negative
  length gives no iteration.
\<close>

definition generateScramble :: "(nat \<Rightarrow> nat) \<Rightarrow> int option \<Rightarrow> string \<Rightarrow> string list" where
  "generateScramble rnd len difficulty =
     (let len1 =
            (case len of
               Some n \<Rightarrow> if n \<noteq> 0 then n
                         else if difficulty = ''easy'' then 12
                         else if difficulty = ''medium'' then 20
                         else if difficulty = ''hard'' then 25
                         else defaultLength
             | None \<Rightarrow> if difficulty = ''easy'' then 12
                       else if difficulty = ''medium'' then 20
                       else if difficulty = ''hard'' then 25
                       else defaultLength)
      in scramble_loop rnd difficulty (nat len1) [] None None 0)"

text \<open>\<open>isValidMoveFormat(move)\<close>: the pattern \<open>/^[RLUDFB]['2]?$/\<close>.\<close>

fun isValidMoveFormat :: "string \<Rightarrow> bool" where
  "isValidMoveFormat [f] = (f \<in> set ''RLUDFB'')"
| "isValidMoveFormat [f, m] = (f \<in> set ''RLUDFB'' \<and> (m = CHR 0x27 \<or> m = CHR ''2''))"
| "isValidMoveFormat _ = False"

text \<open>The decimal digits of a number, as a template literal prints \<open>${i + 1}\<close>.\<close>

function show_nat :: "nat \<Rightarrow> string" where
  "show_nat n =
     (if n < 10 then [char_of (48 + n)]
      else show_nat (n div 10) @ [char_of (48 + n mod 10)])"
  by pat_completeness auto
termination
  by (relation "measure id") auto

declare show_nat.simps [simp del]

record validation =
  isValid :: bool
  errors :: "string list"

text \<open>The loop of \<open>validateScramble\<close> from position \<open>i\<close> on, with the errors so far.\<close>

function validate_loop :: "string list \<Rightarrow> nat \<Rightarrow> string list \<Rightarrow> string list" where
  "validate_loop scrambleArray i errs =
     (if i < length scrambleArray then
        (let move = scrambleArray ! i in
         if \<not> isValidMoveFormat move
         then validate_loop scrambleArray (i + 1) (errs @ [''Invalid move format: '' @ move])
         else if i > 0 then
           (let lastMove = extractFace (scrambleArray ! (i - 1));
                lastLastMove = (if i > 1 then extractFace (scrambleArray ! (i - 2)) else None)
            in if \<not> isValidMove move lastMove lastLastMove
               then validate_loop scrambleArray (i + 1)
                      (errs @ [''Invalid move sequence at position '' @ show_nat (i + 1)
                                 @ '': '' @ move])
               else validate_loop scrambleArray (i + 1) errs)
         else validate_loop scrambleArray (i + 1) errs)
      else errs)"
  by pat_completeness auto
termination
  by (relation "measure (\<lambda>(scrambleArray, i, errs). length scrambleArray - i)") auto

declare validate_loop.simps [simp del]

definition validateScramble :: "string list \<Rightarrow> validation" where
  "validateScramble scrambleArray =
     (let errs = validate_loop scrambleArray 0 []
      in \<lparr>isValid = (length errs = 0), errors = errs\<rparr>)"

text \<open>
  What the validator reports for position \<open>i\<close> of a sequence, read off the two
  \<open>errors.push\<close> calls: a format error names the move only, a rule violation names the
  1-based position and the move.
\<close>

definition violation_at :: "string list \<Rightarrow> nat \<Rightarrow> string list" where
  "violation_at scrambleArray i =
     (let move = scrambleArray ! i in
      if \<not> isValidMoveFormat move then [''Invalid move format: '' @ move]
      else if i > 0
              \<and> \<not> isValidMove move (extractFace (scrambleArray ! (i - 1)))
                     (if i > 1 then extractFace (scrambleArray ! (i - 2)) else None)
      then [''Invalid move sequence at position '' @ show_nat (i + 1) @ '': '' @ move]
      else [])"

text \<open>
  The two adjacency rules as properties of a whole sequence, stated on the faces
  \<open>extractFace\<close> gives: no two neighbours on the same face, and nowhere three
  consecutive moves on the faces A, opposite(A), A.
\<close>

definition no_immediate_repeat :: "string list \<Rightarrow> bool" where
  "no_immediate_repeat xs =
     list_all (\<lambda>i. extractFace (xs ! (i + 1)) \<noteq> extractFace (xs ! i)) [0..<length xs - 1]"

definition sandwich :: "string option \<Rightarrow> string option \<Rightarrow> string option \<Rightarrow> bool" where
  "sandwich fa fb fc =
     (case fa of
        None \<Rightarrow> False
      | Some a \<Rightarrow>
          (case oppositeFaces a of None \<Rightarrow> False | Some b \<Rightarrow> fb = Some b \<and> fc = Some a))"

definition no_opposite_sandwich :: "string list \<Rightarrow> bool" where
  "no_opposite_sandwich xs =
     list_all (\<lambda>i. \<not> sandwich (extractFace (xs ! i)) (extractFace (xs ! (i + 1)))
                        (extractFace (xs ! (i + 2))))
       [0..<length xs - 2]"

text \<open>The faces of the last and of the last but one move of a sequence, \<open>null\<close> if absent.\<close>

definition last_face :: "string list \<Rightarrow> string option" where
  "last_face xs = (if xs = [] then None else extractFace (xs ! (length xs - 1)))"

definition last_but_one_face :: "string list \<Rightarrow> string option" where
  "last_but_one_face xs = (if length xs < 2 then None else extractFace (xs ! (length xs - 2)))"

section \<open>Heuristic solver (class CubeSolver)\<close>

subsection \<open>Run-length optimiser\<close>

text \<open>
  \<open>move.charAt(0)\<close> is the first character as a string (empty for the empty string);
  \<open>move.includes("'")\<close> looks for an apostrophe anywhere in the string.
\<close>

definition charAt0 :: "string \<Rightarrow> string" where
  "charAt0 move = take 1 move"

definition includes_prime :: "string \<Rightarrow> bool" where
  "includes_prime move = (CHR 0x27 \<in> set move)"

text \<open>
  The inner \<open>while\<close> of \<open>optimizeSolution\<close>: starting from \<open>count\<close> (here \<open>cnt\<close>), count the moves
  after position \<open>i\<close> that have the base face and the direction of the move at \<open>i\<close>.
\<close>

function count_run :: "string list \<Rightarrow> nat \<Rightarrow> string \<Rightarrow> bool \<Rightarrow> nat \<Rightarrow> nat" where
  "count_run solution i baseFace isClockwise cnt =
     (if i + cnt < length solution then
        (let nextMove = solution ! (i + cnt);
             nextBaseFace = charAt0 nextMove;
             nextIsClockwise = (\<not> includes_prime nextMove)
         in if nextBaseFace = baseFace \<and> nextIsClockwise = isClockwise
            then count_run solution i baseFace isClockwise (cnt + 1)
            else cnt)
      else cnt)"
  by pat_completeness auto
termination
  by (relation "measure (\<lambda>(solution, i, baseFace, isClockwise, cnt). length solution - (i + cnt))")
    auto

declare count_run.simps [simp del]

text \<open>
  The outer \<open>while\<close>: the run that starts at \<open>i\<close> has \<open>count\<close> moves; \<open>count % 4\<close>
  decides what is pushed, and \<open>i\<close> advances by \<open>count\<close>.
\<close>

function optimize_loop :: "string list \<Rightarrow> nat \<Rightarrow> string list \<Rightarrow> string list" where
  "optimize_loop solution i optimized =
     (if i < length solution then
        (let currentMove = solution ! i;
             baseFace = charAt0 currentMove;
             isClockwise = (\<not> includes_prime currentMove);
             cnt = count_run solution i baseFace isClockwise 1;
             finalCount = cnt mod 4;
             optimized1 =
               (if finalCount = 1 then optimized @ [currentMove]
                else if finalCount = 2 then optimized @ [baseFace @ ''2'']
                else if finalCount = 3
                  then optimized @ [baseFace @ (if isClockwise then [CHR 0x27] else [])]
                else optimized)
         in optimize_loop solution (i + cnt) optimized1)
      else optimized)"
  by pat_completeness auto
termination
proof (relation "measure (\<lambda>(solution, i, optimized). length solution - i)")
  show "wf (measure (\<lambda>(solution, i, optimized). length solution - i))" by simp
next
  fix solution :: "string list" and i :: nat and optimized :: "string list"
  fix currentMove baseFace isClockwise cnt finalCount optimized1
  assume i: "i < length solution"
    and cnt: "cnt = count_run solution i baseFace isClockwise 1"
  have "c \<le> count_run sol j bf cw c" for sol j bf cw c
  proof (induction sol j bf cw c rule: count_run.induct)
    case (1 sol j bf cw c)
    show ?case
    proof (cases "j + c < length sol \<and> charAt0 (sol ! (j + c)) = bf
                    \<and> (\<not> includes_prime (sol ! (j + c))) = cw")
      case True
      then have "c + 1 \<le> count_run sol j bf cw (c + 1)" by (intro "1.IH") auto
      moreover from True have "count_run sol j bf cw c = count_run sol j bf cw (c + 1)"
        by (subst count_run.simps) (simp add: Let_def)
      ultimately show ?thesis by simp
    next
      case False
      then have "count_run sol j bf cw c = c"
        by (subst count_run.simps) (auto simp: Let_def)
      then show ?thesis by simp
    qed
  qed
  then have "1 \<le> cnt" unfolding cnt .
  with i show "((solution, i + cnt, optimized1), (solution, i, optimized))
          \<in> measure (\<lambda>(solution, i, optimized). length solution - i)"
    by simp
qed

declare optimize_loop.simps [simp del]

definition optimizeSolution :: "string list \<Rightarrow> string list" where
  "optimizeSolution solution =
     (if length solution = 0 then solution else optimize_loop solution 0 [])"

text \<open>
  The reading of the optimiser that the specification gives, to be compared with the
  loops above: cut the sequence into maximal runs of consecutive moves with the same
  base face and the same direction, and replace each run by what its length modulo 4
  calls for.
\<close>

definition move_key :: "string \<Rightarrow> string \<times> bool" where
  "move_key move = (charAt0 move, \<not> includes_prime move)"

function maximal_runs :: "string list \<Rightarrow> string list list" where
  "maximal_runs [] = []"
| "maximal_runs (m # ms) =
     (m # takeWhile (\<lambda>x. move_key x = move_key m) ms)
       # maximal_runs (dropWhile (\<lambda>x. move_key x = move_key m) ms)"
  by pat_completeness auto
termination
  by (relation "measure length") (simp_all add: length_dropWhile_le less_Suc_eq_le)

definition collapse_run :: "string list \<Rightarrow> string list" where
  "collapse_run run =
     (let k = length run; first = hd run in
      if k mod 4 = 0 then []
      else if k mod 4 = 1 then [first]
      else if k mod 4 = 2 then [charAt0 first @ ''2'']
      else [if includes_prime first then charAt0 first else prime (charAt0 first)])"

text \<open>Feeding a list of notations to \<open>executeMove\<close>, one after the other.\<close>

definition executeMoves :: "string list \<Rightarrow> 'a cube_state \<Rightarrow> 'a cube_state" where
  "executeMoves moves s = fold (\<lambda>move s'. snd (executeMove move s')) moves s"

subsection \<open>The staged pipeline\<close>

text \<open>The entries of \<open>this.algorithms\<close> that the stages use.\<close>

definition whiteCross_F_edge_wrong :: "string list" where
  "whiteCross_F_edge_wrong = [''F'', ''U'', ''R'', prime ''U'', prime ''R'', prime ''F'']"

definition whiteCorners_rightHand :: "string list" where
  "whiteCorners_rightHand = [''R'', ''U'', prime ''R'', prime ''U'']"

definition secondLayer_right :: "string list" where
  "secondLayer_right =
     [''U'', ''R'', prime ''U'', prime ''R'', prime ''U'', prime ''F'', ''U'', ''F'']"

definition yellowCross_dot :: "string list" where
  "yellowCross_dot = [''F'', ''R'', ''U'', prime ''R'', prime ''U'', prime ''F'']"

definition yellowCorners_sune :: "string list" where
  "yellowCorners_sune = [''R'', ''U'', prime ''R'', ''U'', ''R'', ''U2'', prime ''R'']"

definition cornerPLL_clockwise :: "string list" where
  "cornerPLL_clockwise =
     [prime ''R'', ''F'', prime ''R'', ''B2'', ''R'', prime ''F'', prime ''R'', ''B2'', ''R2'']"

definition edgePLL_adjacent :: "string list" where
  "edgePLL_adjacent =
     [''R'', ''U'', prime ''R'', prime ''F'', ''R'', ''U'', prime ''R'', prime ''U'',
      prime ''R'', ''F'', ''R2'', prime ''U'', prime ''R'']"

definition getFallbackSolution :: "string list" where
  "getFallbackSolution =
     [''R'', ''U'', prime ''R'', prime ''U'', ''R'', ''U'', prime ''R'', prime ''U'',
      ''F'', ''R'', ''U'', prime ''R'', prime ''U'', prime ''F'',
      ''R'', ''U'', prime ''R'', ''U'', ''R'', ''U2'', prime ''R'',
      ''R'', ''U'', prime ''R'', prime ''F'', ''R'', ''U'', prime ''R'', prime ''U'',
      prime ''R'', ''F'', ''R2'', prime ''U'', prime ''R'']"

text \<open>
  \<open>createWorkingState(cubeState)\<close>: a new object, \<open>setState\<close> of the caller's state
  copy, and a copy of the caller's history.
\<close>

definition createWorkingState :: "color cube_state \<Rightarrow> color cube_state" where
  "createWorkingState cubeState =
     (let workingState = new_CubeState;
          workingState1 = setState (getStateCopy cubeState) workingState
      in workingState1\<lparr>moveHistory := getMoveHistory cubeState\<rparr>)"

text \<open>The stage predicates.\<close>

definition isWhiteCrossSolved :: "color cube_state \<Rightarrow> bool" where
  "isWhiteCrossSolved s =
     (let dFace = faceD (state s) in
      dFace ! 1 = yellow \<and> dFace ! 3 = yellow \<and> dFace ! 5 = yellow \<and> dFace ! 7 = yellow)"

definition areWhiteCornersSolved :: "color cube_state \<Rightarrow> bool" where
  "areWhiteCornersSolved s = (let dFace = faceD (state s) in list_all (\<lambda>color. color = yellow) dFace)"

definition isSecondLayerSolved :: "color cube_state \<Rightarrow> bool" where
  "isSecondLayerSolved s =
     list_all (\<lambda>f. let faceArray = state_at (state s) f;
                       middleRow = [faceArray ! 3, faceArray ! 4, faceArray ! 5]
                   in list_all (\<lambda>color. color = faceArray ! 4) middleRow)
       [F, R, B, L]"

definition isYellowCrossSolved :: "color cube_state \<Rightarrow> bool" where
  "isYellowCrossSolved s =
     (let uFace = faceU (state s) in
      uFace ! 1 = white \<and> uFace ! 3 = white \<and> uFace ! 5 = white \<and> uFace ! 7 = white)"

definition areYellowCornersOriented :: "color cube_state \<Rightarrow> bool" where
  "areYellowCornersOriented s = (let uFace = faceU (state s) in list_all (\<lambda>color. color = white) uFace)"

definition areLastLayerCornersSolved :: "color cube_state \<Rightarrow> bool" where
  "areLastLayerCornersSolved s = isSecondLayerSolved s"

text \<open>\<open>areLastLayerEdgesSolved\<close> calls \<open>checkCompleted\<close>, which also stores the flag.\<close>

definition areLastLayerEdgesSolved :: "color cube_state \<Rightarrow> bool \<times> color cube_state" where
  "areLastLayerEdgesSolved s = checkCompleted s"

text \<open>A predicate that only reads the object.\<close>

definition reads :: "(color cube_state \<Rightarrow> bool) \<Rightarrow> color cube_state \<Rightarrow> bool \<times> color cube_state" where
  "reads p s = (p s, s)"

text \<open>
  \<open>for (const move of algorithm) { state.executeMove(move); moves.push(move); }\<close> on
  the pair of the working object and the stage's move list.
\<close>

definition apply_algorithm ::
  "string list \<Rightarrow> 'a cube_state \<times> string list \<Rightarrow> 'a cube_state \<times> string list" where
  "apply_algorithm algorithm sm =
     fold (\<lambda>move (s, moves). (snd (executeMove move s), moves @ [move])) algorithm sm"

text \<open>
  The loop every stage is built from,
  \<open>for (let attempts = 0; attempts < budget; attempts++) { if (solved(state)) break; body }\<close>.
  The first argument is the number of iterations left, \<open>budget - attempts\<close>.
\<close>

fun for_attempts ::
  "nat \<Rightarrow> nat \<Rightarrow> ('s \<Rightarrow> bool \<times> 's) \<Rightarrow> (nat \<Rightarrow> 's \<times> string list \<Rightarrow> 's \<times> string list)
     \<Rightarrow> 's \<times> string list \<Rightarrow> 's \<times> string list" where
  "for_attempts 0 attempts solved body sm = sm"
| "for_attempts (Suc left) attempts solved body (s, moves) =
     (let (done, s1) = solved s in
      if done then (s1, moves)
      else for_attempts left (attempts + 1) solved body (body attempts (s1, moves)))"

text \<open>
  The stages.  \<open>solveWhiteCross\<close> draws \<open>Math.floor(Math.random() * 3)\<close> once per
  attempt; \<open>rnd attempts mod 3\<close> stands for that draw, so that \<open>rnd\<close> ranges over all
  outcomes of the random source.
\<close>

definition uMoves :: "string list" where
  "uMoves = [''U'', prime ''U'', ''U2'']"

definition solveWhiteCross :: "(nat \<Rightarrow> nat) \<Rightarrow> color cube_state \<Rightarrow> color cube_state \<times> string list" where
  "solveWhiteCross rnd s =
     for_attempts 20 0 (reads isWhiteCrossSolved)
       (\<lambda>attempts sm.
          let sm1 = apply_algorithm whiteCross_F_edge_wrong sm;
              randomU = uMoves ! (rnd attempts mod 3)
          in apply_algorithm [randomU] sm1)
       (s, [])"

definition solveWhiteCorners :: "color cube_state \<Rightarrow> color cube_state \<times> string list" where
  "solveWhiteCorners s =
     for_attempts 30 0 (reads areWhiteCornersSolved)
       (\<lambda>attempts sm. apply_algorithm [''U''] (apply_algorithm whiteCorners_rightHand sm))
       (s, [])"

definition solveSecondLayer :: "color cube_state \<Rightarrow> color cube_state \<times> string list" where
  "solveSecondLayer s =
     for_attempts 25 0 (reads isSecondLayerSolved)
       (\<lambda>attempts sm. apply_algorithm [''U''] (apply_algorithm secondLayer_right sm))
       (s, [])"

definition solveYellowCross :: "color cube_state \<Rightarrow> color cube_state \<times> string list" where
  "solveYellowCross s =
     for_attempts 15 0 (reads isYellowCrossSolved)
       (\<lambda>attempts sm. apply_algorithm [''U''] (apply_algorithm yellowCross_dot sm))
       (s, [])"

definition orientYellowCorners :: "color cube_state \<Rightarrow> color cube_state \<times> string list" where
  "orientYellowCorners s =
     for_attempts 20 0 (reads areYellowCornersOriented)
       (\<lambda>attempts sm. apply_algorithm [''U''] (apply_algorithm yellowCorners_sune sm))
       (s, [])"

definition permuteLastLayer :: "color cube_state \<Rightarrow> color cube_state \<times> string list" where
  "permuteLastLayer s =
     (let sm1 = for_attempts 10 0 (reads areLastLayerCornersSolved)
                  (\<lambda>attempts sm. apply_algorithm [''U''] (apply_algorithm cornerPLL_clockwise sm))
                  (s, [])
      in for_attempts 10 0 areLastLayerEdgesSolved
           (\<lambda>attempts sm. apply_algorithm [''U''] (apply_algorithm edgePLL_adjacent sm))
           sm1)"

text \<open>
  \<open>solve(cubeState)\<close>.  Nothing in the \<open>try\<close> block can throw on an object of this
  model (every field exists and every notation is a string), so the \<open>catch\<close> branch
  with \<open>getFallbackSolution\<close> is not taken.
\<close>

definition solve :: "(nat \<Rightarrow> nat) \<Rightarrow> color cube_state \<Rightarrow> string list" where
  "solve rnd cubeState =
     (let stateCopy = createWorkingState cubeState;
          (s1, whiteCrossMoves) = solveWhiteCross rnd stateCopy;
          (s2, whiteCornerMoves) = solveWhiteCorners s1;
          (s3, secondLayerMoves) = solveSecondLayer s2;
          (s4, yellowCrossMoves) = solveYellowCross s3;
          (s5, yellowCornerMoves) = orientYellowCorners s4;
          (s6, lastLayerMoves) = permuteLastLayer s5;
          solution = [] @ whiteCrossMoves @ whiteCornerMoves @ secondLayerMoves
                       @ yellowCrossMoves @ yellowCornerMoves @ lastLayerMoves
      in optimizeSolution solution)"

text \<open>
  A list that starts with two moves of different (face, direction) key: the first
  move is a run of its own, so the optimiser keeps it.
\<close>

definition starts_two :: "string list \<Rightarrow> bool" where
  "starts_two xs = (\<exists>x y rest. xs = x # y # rest \<and> move_key x \<noteq> move_key y)"

text \<open>A loop body that appends at least the two moves \<open>t1\<close>, \<open>t2\<close> to the move list.\<close>

definition appends_two ::
  "string \<Rightarrow> string \<Rightarrow> (nat \<Rightarrow> 's \<times> string list \<Rightarrow> 's \<times> string list) \<Rightarrow> bool" where
  "appends_two t1 t2 body = (\<forall>k s m. \<exists>rest. snd (body k (s, m)) = m @ t1 # t2 # rest)"

section \<open>The engine and the solver on a store of objects\<close>

text \<open>
  For the question which arrays a \<open>CubeState\<close> shares with its copy, objects live
  in a store.  A cell is an array of stickers, an array of notations, an object with
  face keys that refer to sticker arrays (the \<open>state\<close> object, or the result of
  \<open>getStateCopy\<close>), or a \<open>CubeState\<close> instance with its three fields \<open>state\<close>,
  \<open>moveHistory\<close> and \<open>isCompleted\<close>.  Addresses are handed out in increasing order;
  \<open>free\<close> is the next one.
\<close>

type_synonym addr = nat

datatype cell =
    Stickers "color list"
  | Notations "string list"
  | FaceTable "face \<rightharpoonup> addr"
  | Cube addr addr bool

record store =
  cells :: "addr \<rightharpoonup> cell"
  free :: addr

text \<open>
  A method is a function from the store to a result and the store afterwards; the
  result \<open>None\<close> is a thrown \<open>TypeError\<close> (reading a property of \<open>undefined\<close>).
\<close>

type_synonym 'a prog = "store \<Rightarrow> 'a option \<times> store"

definition ret :: "'a \<Rightarrow> 'a prog" where
  "ret x \<sigma> = (Some x, \<sigma>)"

definition throw :: "'a prog" where
  "throw \<sigma> = (None, \<sigma>)"

definition then_do :: "'a prog \<Rightarrow> ('a \<Rightarrow> 'b prog) \<Rightarrow> 'b prog" where
  "then_do p f \<sigma> = (case p \<sigma> of (None, \<sigma>1) \<Rightarrow> (None, \<sigma>1) | (Some x, \<sigma>1) \<Rightarrow> f x \<sigma>1)"

definition catch_with :: "'a prog \<Rightarrow> 'a prog \<Rightarrow> 'a prog" where
  "catch_with p handler \<sigma> = (case p \<sigma> of (None, \<sigma>1) \<Rightarrow> handler \<sigma>1 | (Some x, \<sigma>1) \<Rightarrow> (Some x, \<sigma>1))"

fun for_each :: "'x list \<Rightarrow> ('x \<Rightarrow> unit prog) \<Rightarrow> unit prog" where
  "for_each [] body = ret ()"
| "for_each (x # xs) body = then_do (body x) (\<lambda>_. for_each xs body)"

fun map_prog :: "('x \<Rightarrow> 'y prog) \<Rightarrow> 'x list \<Rightarrow> 'y list prog" where
  "map_prog f [] = ret []"
| "map_prog f (x # xs) = then_do (f x) (\<lambda>y. then_do (map_prog f xs) (\<lambda>ys. ret (y # ys)))"

definition alloc :: "cell \<Rightarrow> addr prog" where
  "alloc c \<sigma> = (Some (free \<sigma>), \<sigma>\<lparr>cells := (cells \<sigma>)(free \<sigma> \<mapsto> c), free := free \<sigma> + 1\<rparr>)"

definition store_cell :: "addr \<Rightarrow> cell \<Rightarrow> unit prog" where
  "store_cell a c \<sigma> = (Some (), \<sigma>\<lparr>cells := (cells \<sigma>)(a \<mapsto> c)\<rparr>)"

definition load_stickers :: "addr \<Rightarrow> color list prog" where
  "load_stickers a \<sigma> = (case cells \<sigma> a of Some (Stickers xs) \<Rightarrow> (Some xs, \<sigma>) | _ \<Rightarrow> (None, \<sigma>))"

definition load_notations :: "addr \<Rightarrow> string list prog" where
  "load_notations a \<sigma> = (case cells \<sigma> a of Some (Notations hs) \<Rightarrow> (Some hs, \<sigma>) | _ \<Rightarrow> (None, \<sigma>))"

definition load_table :: "addr \<Rightarrow> (face \<rightharpoonup> addr) prog" where
  "load_table a \<sigma> = (case cells \<sigma> a of Some (FaceTable tbl) \<Rightarrow> (Some tbl, \<sigma>) | _ \<Rightarrow> (None, \<sigma>))"

definition load_cube :: "addr \<Rightarrow> (addr \<times> addr \<times> bool) prog" where
  "load_cube a \<sigma> =
     (case cells \<sigma> a of Some (Cube sr hr fl) \<Rightarrow> (Some (sr, hr, fl), \<sigma>) | _ \<Rightarrow> (None, \<sigma>))"

subsection \<open>The methods of CubeState on the store\<close>

text \<open>\<open>this.state[f]\<close> where an array is needed, \<open>this.state[f][idx]\<close> read and written.\<close>

definition face_array :: "addr \<Rightarrow> face \<Rightarrow> addr prog" where
  "face_array this f =
     then_do (load_cube this) (\<lambda>(sr, hr, fl).
     then_do (load_table sr) (\<lambda>tbl.
     case tbl f of None \<Rightarrow> throw | Some a \<Rightarrow> ret a))"

definition read_sticker :: "addr \<Rightarrow> face \<Rightarrow> nat \<Rightarrow> color prog" where
  "read_sticker this f idx =
     then_do (face_array this f) (\<lambda>a.
     then_do (load_stickers a) (\<lambda>xs. ret (xs ! idx)))"

definition write_sticker :: "addr \<Rightarrow> face \<Rightarrow> nat \<Rightarrow> color \<Rightarrow> unit prog" where
  "write_sticker this f idx v =
     then_do (face_array this f) (\<lambda>a.
     then_do (load_stickers a) (\<lambda>xs. store_cell a (Stickers (xs[idx := v]))))"

text \<open>\<open>rotateFaceArray\<close> assigns into the array it is given.\<close>

definition rotateFaceArray_on :: "addr \<Rightarrow> bool \<Rightarrow> unit prog" where
  "rotateFaceArray_on a cw =
     then_do (load_stickers a) (\<lambda>xs. store_cell a (Stickers (rotateFaceArray xs cw)))"

definition rotateAdjacentEdges_on :: "addr \<Rightarrow> face \<Rightarrow> bool \<Rightarrow> unit prog" where
  "rotateAdjacentEdges_on this fc cw =
     (let rotation = rotations fc;
          cycle = (if cw then fst rotation else snd rotation);
          (firstFace, firstIndices) = cycle ! 0
      in then_do (map_prog (\<lambda>idx. read_sticker this firstFace idx) firstIndices) (\<lambda>temp.
         then_do (for_each [0..<length cycle - 1] (\<lambda>i.
                    let (fromFace, fromIndices) = cycle ! (i + 1);
                        (toFace, toIndices) = cycle ! i
                    in for_each [0..<length fromIndices] (\<lambda>j.
                         then_do (read_sticker this fromFace (fromIndices ! j)) (\<lambda>v.
                         write_sticker this toFace (toIndices ! j) v)))) (\<lambda>_.
         let (lastFace, lastIndices) = cycle ! (length cycle - 1)
         in for_each [0..<length lastIndices] (\<lambda>i.
              write_sticker this lastFace (lastIndices ! i) (temp ! i)))))"

definition rotateFace_on :: "addr \<Rightarrow> face \<Rightarrow> bool \<Rightarrow> unit prog" where
  "rotateFace_on this fc cw =
     then_do (face_array this fc) (\<lambda>a.
     then_do (rotateFaceArray_on a cw) (\<lambda>_.
     rotateAdjacentEdges_on this fc cw))"

text \<open>\<open>checkCompleted\<close> looks at the keys the \<open>state\<close> object has and stores the flag.\<close>

definition checkCompleted_on :: "addr \<Rightarrow> bool prog" where
  "checkCompleted_on this =
     then_do (load_cube this) (\<lambda>(sr, hr, fl).
     then_do (load_table sr) (\<lambda>tbl.
     then_do (map_prog (\<lambda>f. case tbl f of
                               None \<Rightarrow> ret True
                             | Some a \<Rightarrow> then_do (load_stickers a) (\<lambda>colors. ret (face_uniform colors)))
                [U, D, R, L, F, B]) (\<lambda>bs.
     let b = list_all (\<lambda>x. x) bs in
     then_do (store_cell this (Cube sr hr b)) (\<lambda>_. ret b))))"

definition push_history :: "addr \<Rightarrow> string \<Rightarrow> unit prog" where
  "push_history this move =
     then_do (load_cube this) (\<lambda>(sr, hr, fl).
     then_do (load_notations hr) (\<lambda>hs. store_cell hr (Notations (hs @ [move]))))"

definition executeMove_on :: "addr \<Rightarrow> string \<Rightarrow> bool prog" where
  "executeMove_on this move =
     (case parseMove move of
        None \<Rightarrow> ret False
      | Some moveData \<Rightarrow>
          then_do (if double moveData
                   then then_do (rotateFace_on this (face moveData) (clockwise moveData)) (\<lambda>_.
                        rotateFace_on this (face moveData) (clockwise moveData))
                   else rotateFace_on this (face moveData) (clockwise moveData)) (\<lambda>_.
          then_do (push_history this move) (\<lambda>_.
          then_do (checkCompleted_on this) (\<lambda>_. ret True))))"

text \<open>
  \<open>new CubeState()\<close>: the six arrays \<open>Array(9).fill(colour)\<close>, the \<open>state\<close> object, the
  empty history and the instance itself, which is returned.
\<close>

definition new_CubeState_on :: "addr prog" where
  "new_CubeState_on =
     then_do (alloc (Stickers (replicate 9 white))) (\<lambda>u.
     then_do (alloc (Stickers (replicate 9 yellow))) (\<lambda>d.
     then_do (alloc (Stickers (replicate 9 red))) (\<lambda>r.
     then_do (alloc (Stickers (replicate 9 orange))) (\<lambda>l.
     then_do (alloc (Stickers (replicate 9 blue))) (\<lambda>f.
     then_do (alloc (Stickers (replicate 9 green))) (\<lambda>b.
     then_do (alloc (FaceTable [U \<mapsto> u, D \<mapsto> d, R \<mapsto> r, L \<mapsto> l, F \<mapsto> f, B \<mapsto> b])) (\<lambda>sr.
     then_do (alloc (Notations [])) (\<lambda>hr.
     alloc (Cube sr hr True)))))))))"

text \<open>
  The loop \<open>Object.keys(src).forEach(face => { dst[face] = [...src[face]]; })\<close> of
  \<open>getStateCopy\<close> and \<open>setState\<close>: a new array for every key of the source object.
\<close>

fun copy_faces :: "face list \<Rightarrow> (face \<rightharpoonup> addr) \<Rightarrow> (face \<rightharpoonup> addr) \<Rightarrow> (face \<rightharpoonup> addr) prog" where
  "copy_faces [] src dst = ret dst"
| "copy_faces (f # fs) src dst =
     (case src f of
        None \<Rightarrow> copy_faces fs src dst
      | Some a \<Rightarrow>
          then_do (load_stickers a) (\<lambda>xs.
          then_do (alloc (Stickers xs)) (\<lambda>a1.
          copy_faces fs src (dst(f \<mapsto> a1)))))"

definition getStateCopy_on :: "addr \<Rightarrow> addr prog" where
  "getStateCopy_on this =
     then_do (load_cube this) (\<lambda>(sr, hr, fl).
     then_do (load_table sr) (\<lambda>tbl.
     then_do (copy_faces [U, D, R, L, F, B] tbl Map.empty) (\<lambda>copy.
     alloc (FaceTable copy))))"

definition setState_on :: "addr \<Rightarrow> addr \<Rightarrow> unit prog" where
  "setState_on this newState =
     then_do (load_table newState) (\<lambda>tbl.
     then_do (copy_faces [U, D, R, L, F, B] tbl Map.empty) (\<lambda>fresh.
     then_do (alloc (FaceTable fresh)) (\<lambda>sr.
     then_do (load_cube this) (\<lambda>(sr0, hr, fl).
     then_do (store_cell this (Cube sr hr fl)) (\<lambda>_.
     then_do (checkCompleted_on this) (\<lambda>_. ret ()))))))"

definition getMoveHistory_on :: "addr \<Rightarrow> addr prog" where
  "getMoveHistory_on this =
     then_do (load_cube this) (\<lambda>(sr, hr, fl).
     then_do (load_notations hr) (\<lambda>hs. alloc (Notations hs)))"

subsection \<open>The solver on the store\<close>

text \<open>
  \<open>createWorkingState(cubeState)\<close>: \<open>new CubeState()\<close>, then
  \<open>setState(cubeState.getStateCopy())\<close>, then
  \<open>workingState.moveHistory = [...cubeState.getMoveHistory()]\<close>.
\<close>

definition createWorkingState_on :: "addr \<Rightarrow> addr prog" where
  "createWorkingState_on cubeState =
     then_do new_CubeState_on (\<lambda>workingState.
     then_do (getStateCopy_on cubeState) (\<lambda>copy.
     then_do (setState_on workingState copy) (\<lambda>_.
     then_do (getMoveHistory_on cubeState) (\<lambda>h.
     then_do (load_notations h) (\<lambda>hs.
     then_do (alloc (Notations hs)) (\<lambda>h1.
     then_do (load_cube workingState) (\<lambda>(sr, hr, fl).
     then_do (store_cell workingState (Cube sr h1 fl)) (\<lambda>_.
     ret workingState))))))))"

definition isWhiteCrossSolved_on :: "addr \<Rightarrow> bool prog" where
  "isWhiteCrossSolved_on s =
     then_do (face_array s D) (\<lambda>a.
     then_do (load_stickers a) (\<lambda>dFace.
     ret (dFace ! 1 = yellow \<and> dFace ! 3 = yellow \<and> dFace ! 5 = yellow \<and> dFace ! 7 = yellow)))"

definition areWhiteCornersSolved_on :: "addr \<Rightarrow> bool prog" where
  "areWhiteCornersSolved_on s =
     then_do (face_array s D) (\<lambda>a.
     then_do (load_stickers a) (\<lambda>dFace. ret (list_all (\<lambda>color. color = yellow) dFace)))"

definition isSecondLayerSolved_on :: "addr \<Rightarrow> bool prog" where
  "isSecondLayerSolved_on s =
     then_do (map_prog (\<lambda>f.
                then_do (face_array s f) (\<lambda>a.
                then_do (load_stickers a) (\<lambda>faceArray.
                let middleRow = [faceArray ! 3, faceArray ! 4, faceArray ! 5]
                in ret (list_all (\<lambda>color. color = faceArray ! 4) middleRow))))
              [F, R, B, L]) (\<lambda>bs. ret (list_all (\<lambda>x. x) bs))"

definition isYellowCrossSolved_on :: "addr \<Rightarrow> bool prog" where
  "isYellowCrossSolved_on s =
     then_do (face_array s U) (\<lambda>a.
     then_do (load_stickers a) (\<lambda>uFace.
     ret (uFace ! 1 = white \<and> uFace ! 3 = white \<and> uFace ! 5 = white \<and> uFace ! 7 = white)))"

definition areYellowCornersOriented_on :: "addr \<Rightarrow> bool prog" where
  "areYellowCornersOriented_on s =
     then_do (face_array s U) (\<lambda>a.
     then_do (load_stickers a) (\<lambda>uFace. ret (list_all (\<lambda>color. color = white) uFace)))"

definition areLastLayerCornersSolved_on :: "addr \<Rightarrow> bool prog" where
  "areLastLayerCornersSolved_on s = isSecondLayerSolved_on s"

definition areLastLayerEdgesSolved_on :: "addr \<Rightarrow> bool prog" where
  "areLastLayerEdgesSolved_on s = checkCompleted_on s"

text \<open>
  The stage loops.  The move lists \<open>moves\<close> and \<open>solution\<close> are arrays local to the
  solver that nothing else refers to; they are passed as values.
\<close>

fun apply_algorithm_on :: "addr \<Rightarrow> string list \<Rightarrow> string list \<Rightarrow> string list prog" where
  "apply_algorithm_on s [] moves = ret moves"
| "apply_algorithm_on s (move # algorithm) moves =
     then_do (executeMove_on s move) (\<lambda>_. apply_algorithm_on s algorithm (moves @ [move]))"

fun for_attempts_on ::
  "nat \<Rightarrow> nat \<Rightarrow> bool prog \<Rightarrow> (nat \<Rightarrow> string list \<Rightarrow> string list prog) \<Rightarrow> string list
     \<Rightarrow> string list prog" where
  "for_attempts_on 0 attempts solved body moves = ret moves"
| "for_attempts_on (Suc left) attempts solved body moves =
     then_do solved (\<lambda>done.
     if done then ret moves
     else then_do (body attempts moves) (\<lambda>moves1.
          for_attempts_on left (attempts + 1) solved body moves1))"

definition solveWhiteCross_on :: "(nat \<Rightarrow> nat) \<Rightarrow> addr \<Rightarrow> string list prog" where
  "solveWhiteCross_on rnd s =
     for_attempts_on 20 0 (isWhiteCrossSolved_on s)
       (\<lambda>attempts moves.
          then_do (apply_algorithm_on s whiteCross_F_edge_wrong moves) (\<lambda>moves1.
          let randomU = uMoves ! (rnd attempts mod 3)
          in apply_algorithm_on s [randomU] moves1))
       []"

definition solveWhiteCorners_on :: "addr \<Rightarrow> string list prog" where
  "solveWhiteCorners_on s =
     for_attempts_on 30 0 (areWhiteCornersSolved_on s)
       (\<lambda>attempts moves.
          then_do (apply_algorithm_on s whiteCorners_rightHand moves) (\<lambda>moves1.
          apply_algorithm_on s [''U''] moves1))
       []"

definition solveSecondLayer_on :: "addr \<Rightarrow> string list prog" where
  "solveSecondLayer_on s =
     for_attempts_on 25 0 (isSecondLayerSolved_on s)
       (\<lambda>attempts moves.
          then_do (apply_algorithm_on s secondLayer_right moves) (\<lambda>moves1.
          apply_algorithm_on s [''U''] moves1))
       []"

definition solveYellowCross_on :: "addr \<Rightarrow> string list prog" where
  "solveYellowCross_on s =
     for_attempts_on 15 0 (isYellowCrossSolved_on s)
       (\<lambda>attempts moves.
          then_do (apply_algorithm_on s yellowCross_dot moves) (\<lambda>moves1.
          apply_algorithm_on s [''U''] moves1))
       []"

definition orientYellowCorners_on :: "addr \<Rightarrow> string list prog" where
  "orientYellowCorners_on s =
     for_attempts_on 20 0 (areYellowCornersOriented_on s)
       (\<lambda>attempts moves.
          then_do (apply_algorithm_on s yellowCorners_sune moves) (\<lambda>moves1.
          apply_algorithm_on s [''U''] moves1))
       []"

definition permuteLastLayer_on :: "addr \<Rightarrow> string list prog" where
  "permuteLastLayer_on s =
     then_do (for_attempts_on 10 0 (areLastLayerCornersSolved_on s)
                (\<lambda>attempts moves.
                   then_do (apply_algorithm_on s cornerPLL_clockwise moves) (\<lambda>moves1.
                   apply_algorithm_on s [''U''] moves1))
                []) (\<lambda>moves.
     for_attempts_on 10 0 (areLastLayerEdgesSolved_on s)
       (\<lambda>attempts moves.
          then_do (apply_algorithm_on s edgePLL_adjacent moves) (\<lambda>moves1.
          apply_algorithm_on s [''U''] moves1))
       moves)"

text \<open>
  \<open>solve(cubeState)\<close>: the working copy is made before the \<open>try\<close>; a \<open>TypeError\<close> in
  the six stages is caught and replaced by the fallback sequence.
\<close>

definition solve_on :: "(nat \<Rightarrow> nat) \<Rightarrow> addr \<Rightarrow> string list prog" where
  "solve_on rnd cubeState =
     then_do (createWorkingState_on cubeState) (\<lambda>stateCopy.
     then_do (catch_with
                (then_do (solveWhiteCross_on rnd stateCopy) (\<lambda>whiteCrossMoves.
                 then_do (solveWhiteCorners_on stateCopy) (\<lambda>whiteCornerMoves.
                 then_do (solveSecondLayer_on stateCopy) (\<lambda>secondLayerMoves.
                 then_do (solveYellowCross_on stateCopy) (\<lambda>yellowCrossMoves.
                 then_do (orientYellowCorners_on stateCopy) (\<lambda>yellowCornerMoves.
                 then_do (permuteLastLayer_on stateCopy) (\<lambda>lastLayerMoves.
                 ret (Some ([] @ whiteCrossMoves @ whiteCornerMoves @ secondLayerMoves
                        @ yellowCrossMoves @ yellowCornerMoves @ lastLayerMoves)))))))))
                (ret None)) (\<lambda>solution.
     case solution of
       None \<Rightarrow> ret getFallbackSolution
     | Some sol \<Rightarrow> ret (optimizeSolution sol)))"

text \<open>
  Reading an instance off the store: the value of the object at \<open>this\<close>, if its
  fields refer to cells of the right kinds.
\<close>

definition faces_value :: "store \<Rightarrow> (face \<rightharpoonup> addr) \<Rightarrow> color facelets option" where
  "faces_value \<sigma> tbl =
     (case map (\<lambda>f. case tbl f of None \<Rightarrow> None | Some a \<Rightarrow> cells \<sigma> a) [U, D, R, L, F, B] of
        [Some (Stickers u), Some (Stickers d), Some (Stickers r),
         Some (Stickers l), Some (Stickers f), Some (Stickers b)] \<Rightarrow>
          Some \<lparr>faceU = u, faceD = d, faceR = r, faceL = l, faceF = f, faceB = b\<rparr>
      | _ \<Rightarrow> None)"

definition cube_value :: "store \<Rightarrow> addr \<Rightarrow> color cube_state option" where
  "cube_value \<sigma> this =
     (case cells \<sigma> this of
        Some (Cube sr hr fl) \<Rightarrow>
          (case (cells \<sigma> sr, cells \<sigma> hr) of
             (Some (FaceTable tbl), Some (Notations hs)) \<Rightarrow>
               (case faces_value \<sigma> tbl of
                  Some st \<Rightarrow> Some \<lparr>state = st, moveHistory = hs, isCompleted = fl\<rparr>
                | None \<Rightarrow> None)
           | _ \<Rightarrow> None)
      | _ \<Rightarrow> None)"

text \<open>The addresses of the arrays an instance refers to: its face arrays and its history.\<close>

definition arrays_of :: "store \<Rightarrow> addr \<Rightarrow> addr set" where
  "arrays_of \<sigma> this =
     (case cells \<sigma> this of
        Some (Cube sr hr fl) \<Rightarrow>
          insert hr (case cells \<sigma> sr of Some (FaceTable tbl) \<Rightarrow> ran tbl | _ \<Rightarrow> {})
      | _ \<Rightarrow> {})"

text \<open>
  A well-formed instance at \<open>this\<close>: allocated cells of the right kinds, six faces of
  nine stickers; and nothing is stored at or beyond \<open>free\<close>.
\<close>

definition cube_ok :: "store \<Rightarrow> addr \<Rightarrow> bool" where
  "cube_ok \<sigma> this =
     (case cells \<sigma> this of
        Some (Cube sr hr fl) \<Rightarrow>
          this < free \<sigma> \<and> sr < free \<sigma> \<and> hr < free \<sigma>
          \<and> (case cells \<sigma> hr of Some (Notations hs) \<Rightarrow> True | _ \<Rightarrow> False)
          \<and> (case cells \<sigma> sr of
               Some (FaceTable tbl) \<Rightarrow>
                 list_all (\<lambda>f. case tbl f of
                                 None \<Rightarrow> False
                               | Some a \<Rightarrow> a < free \<sigma>
                                   \<and> (case cells \<sigma> a of
                                        Some (Stickers xs) \<Rightarrow> length xs = 9 | _ \<Rightarrow> False))
                   [U, D, R, L, F, B]
             | _ \<Rightarrow> False)
      | _ \<Rightarrow> False)"

definition empty_store :: store where
  "empty_store = \<lparr>cells = Map.empty, free = 0\<rparr>"

text \<open>
  The vocabulary for what a method may touch.  \<open>same_below n\<close>: every cell at an
  address below \<open>n\<close> is as before.  \<open>owned n \<sigma> this\<close>: the instance at \<open>this\<close>, its
  \<open>state\<close> object, its six nine-sticker arrays and its history all lie at addresses
  from \<open>n\<close> on.  \<open>confined n this p\<close>: started on a store where \<open>this\<close> is such an
  instance, \<open>p\<close> returns normally, leaves \<open>this\<close> such an instance and changes nothing
  below \<open>n\<close>.
\<close>

definition same_below :: "addr \<Rightarrow> store \<Rightarrow> store \<Rightarrow> bool" where
  "same_below n \<sigma> \<sigma>' = (\<forall>a<n. cells \<sigma>' a = cells \<sigma> a)"

definition owned :: "addr \<Rightarrow> store \<Rightarrow> addr \<Rightarrow> bool" where
  "owned n \<sigma> this =
     (\<exists>sr hr fl tbl hs.
        cells \<sigma> this = Some (Cube sr hr fl) \<and> n \<le> this \<and> n \<le> sr \<and> n \<le> hr
        \<and> cells \<sigma> sr = Some (FaceTable tbl) \<and> cells \<sigma> hr = Some (Notations hs)
        \<and> (\<forall>f. \<exists>a xs. tbl f = Some a \<and> n \<le> a \<and> cells \<sigma> a = Some (Stickers xs)
                    \<and> length xs = 9))"

definition confined :: "addr \<Rightarrow> addr \<Rightarrow> 'a prog \<Rightarrow> bool" where
  "confined n this p =
     (\<forall>\<sigma>. owned n \<sigma> this \<longrightarrow>
          (\<exists>x \<sigma>'. p \<sigma> = (Some x, \<sigma>') \<and> owned n \<sigma>' this \<and> same_below n \<sigma> \<sigma>'))"

section \<open>Properties of the engine\<close>

subsection \<open>Nine-sticker arrays written out\<close>

lemma length9_explicit:
  assumes "length xs = 9"
  obtains a0 a1 a2 a3 a4 a5 a6 a7 a8 where "xs = [a0, a1, a2, a3, a4, a5, a6, a7, a8]"
proof -
  from assms have "xs = [xs ! 0, xs ! 1, xs ! 2, xs ! 3, xs ! 4, xs ! 5, xs ! 6, xs ! 7, xs ! 8]"
    by (intro nth_equalityI) (auto simp: nth_Cons' less_Suc_eq numeral_nat)
  then show thesis using that by blast
qed

lemma nine_each_explicit:
  assumes "nine_each st"
  obtains u0 u1 u2 u3 u4 u5 u6 u7 u8 d0 d1 d2 d3 d4 d5 d6 d7 d8
          r0 r1 r2 r3 r4 r5 r6 r7 r8 l0 l1 l2 l3 l4 l5 l6 l7 l8
          f0 f1 f2 f3 f4 f5 f6 f7 f8 b0 b1 b2 b3 b4 b5 b6 b7 b8
  where "st = \<lparr>faceU = [u0, u1, u2, u3, u4, u5, u6, u7, u8],
                faceD = [d0, d1, d2, d3, d4, d5, d6, d7, d8],
                faceR = [r0, r1, r2, r3, r4, r5, r6, r7, r8],
                faceL = [l0, l1, l2, l3, l4, l5, l6, l7, l8],
                faceF = [f0, f1, f2, f3, f4, f5, f6, f7, f8],
                faceB = [b0, b1, b2, b3, b4, b5, b6, b7, b8]\<rparr>"
proof -
  obtain us ds rs ls fs bs
    where st: "st = \<lparr>faceU = us, faceD = ds, faceR = rs, faceL = ls, faceF = fs, faceB = bs\<rparr>"
    by (cases st)
  from assms have len: "length us = 9" "length ds = 9" "length rs = 9"
      "length ls = 9" "length fs = 9" "length bs = 9"
    by (simp_all add: nine_each_def st)
  from len(1) obtain u0 u1 u2 u3 u4 u5 u6 u7 u8
    where 1: "us = [u0, u1, u2, u3, u4, u5, u6, u7, u8]" by (rule length9_explicit)
  from len(2) obtain d0 d1 d2 d3 d4 d5 d6 d7 d8
    where 2: "ds = [d0, d1, d2, d3, d4, d5, d6, d7, d8]" by (rule length9_explicit)
  from len(3) obtain r0 r1 r2 r3 r4 r5 r6 r7 r8
    where 3: "rs = [r0, r1, r2, r3, r4, r5, r6, r7, r8]" by (rule length9_explicit)
  from len(4) obtain l0 l1 l2 l3 l4 l5 l6 l7 l8
    where 4: "ls = [l0, l1, l2, l3, l4, l5, l6, l7, l8]" by (rule length9_explicit)
  from len(5) obtain f0 f1 f2 f3 f4 f5 f6 f7 f8
    where 5: "fs = [f0, f1, f2, f3, f4, f5, f6, f7, f8]" by (rule length9_explicit)
  from len(6) obtain b0 b1 b2 b3 b4 b5 b6 b7 b8
    where 6: "bs = [b0, b1, b2, b3, b4, b5, b6, b7, b8]" by (rule length9_explicit)
  show thesis
    using that[of u0 u1 u2 u3 u4 u5 u6 u7 u8 d0 d1 d2 d3 d4 d5 d6 d7 d8
                  r0 r1 r2 r3 r4 r5 r6 r7 r8 l0 l1 l2 l3 l4 l5 l6 l7 l8
                  f0 f1 f2 f3 f4 f5 f6 f7 f8 b0 b1 b2 b3 b4 b5 b6 b7 b8]
    unfolding st 1 2 3 4 5 6 by simp
qed

lemmas turn_defs = rotateFace_def rotateAdjacentEdges_def rotateFaceArray_def copy_strip_def
  set_sticker_def read_strip_def

lemma solved_facelets_explicit:
  "solved_facelets =
     \<lparr>faceU = [white, white, white, white, white, white, white, white, white],
      faceD = [yellow, yellow, yellow, yellow, yellow, yellow, yellow, yellow, yellow],
      faceR = [red, red, red, red, red, red, red, red, red],
      faceL = [orange, orange, orange, orange, orange, orange, orange, orange, orange],
      faceF = [blue, blue, blue, blue, blue, blue, blue, blue, blue],
      faceB = [green, green, green, green, green, green, green, green, green]\<rparr>"
  by (simp add: solved_facelets_def numeral_nat)

lemma solved_nine_each: "nine_each solved_facelets"
  by (simp add: nine_each_def solved_facelets_def)

subsection \<open>The face's own nine stickers\<close>

lemma rotateFaceArray_clockwise_explicit:
  "rotateFaceArray [a0, a1, a2, a3, a4, a5, a6, a7, a8] True
     = [a6, a3, a0, a7, a4, a1, a8, a5, a2]"
  by (simp add: rotateFaceArray_def)

lemma rotateFaceArray_counter_explicit:
  "rotateFaceArray [a0, a1, a2, a3, a4, a5, a6, a7, a8] False
     = [a2, a5, a8, a1, a4, a7, a0, a3, a6]"
  by (simp add: rotateFaceArray_def)

text \<open>
  Claim C4, as amended.  On a face of nine stickers the clockwise quarter turn puts the
  old sticker 6 at position 0, 3 at 1, 0 at 2, 7 at 3, 1 at 5, 8 at 6, 5 at 7 and 2 at 8,
  and leaves the centre (index 4) where it is.  This permutation is not one cycle of
  length eight but two disjoint cycles of length four, the corners 0, 2, 8, 6 and the
  edges 1, 5, 7, 3: two turns put the old sticker \<open>8 - k\<close> at every position \<open>k\<close>, and
  four turns put every sticker back.  The counter-clockwise turn undoes the clockwise
  one and the clockwise turn undoes the counter-clockwise one.
\<close>

theorem rotateFaceArray_clockwise_map:
  assumes "length faceArray = 9"
  shows "rotateFaceArray faceArray True
           = [faceArray ! 6, faceArray ! 3, faceArray ! 0,
              faceArray ! 7, faceArray ! 4, faceArray ! 1,
              faceArray ! 8, faceArray ! 5, faceArray ! 2]
         \<and> rotateFaceArray (rotateFaceArray faceArray True) True
           = [faceArray ! 8, faceArray ! 7, faceArray ! 6,
              faceArray ! 5, faceArray ! 4, faceArray ! 3,
              faceArray ! 2, faceArray ! 1, faceArray ! 0]
         \<and> rotateFaceArray (rotateFaceArray (rotateFaceArray (rotateFaceArray faceArray True)
              True) True) True = faceArray
         \<and> rotateFaceArray (rotateFaceArray faceArray True) False = faceArray
         \<and> rotateFaceArray (rotateFaceArray faceArray False) True = faceArray"
proof -
  from assms obtain a0 a1 a2 a3 a4 a5 a6 a7 a8
    where fa: "faceArray = [a0, a1, a2, a3, a4, a5, a6, a7, a8]" by (rule length9_explicit)
  show ?thesis
    unfolding fa rotateFaceArray_clockwise_explicit rotateFaceArray_counter_explicit by simp
qed

theorem rotateFaceArray_clockwise_map_witness:
  "length [10, 11, 12, 13, 14, 15, 16, 17, 18 :: nat] = 9
   \<and> rotateFaceArray [10, 11, 12, 13, 14, 15, 16, 17, 18 :: nat] True
        = [16, 13, 10, 17, 14, 11, 18, 15, 12]
   \<and> rotateFaceArray (rotateFaceArray [10, 11, 12, 13, 14, 15, 16, 17, 18 :: nat] True) True
        = [18, 17, 16, 15, 14, 13, 12, 11, 10]
   \<and> rotateFaceArray (rotateFaceArray [10, 11, 12, 13, 14, 15, 16, 17, 18 :: nat] True) False
        = [10, 11, 12, 13, 14, 15, 16, 17, 18]
   \<and> rotateFaceArray (rotateFaceArray [10, 11, 12, 13, 14, 15, 16, 17, 18 :: nat] False) True
        = [10, 11, 12, 13, 14, 15, 16, 17, 18]"
proof -
  have h: "length [10, 11, 12, 13, 14, 15, 16, 17, 18 :: nat] = 9" by simp
  show ?thesis using h rotateFaceArray_clockwise_map [OF h] by (simp add: rotateFaceArray_def)
qed

text \<open>
  The claim as stated fails: a cycle of length eight returns no moved sticker to its
  place in fewer than eight steps, but on a face with nine different stickers four
  clockwise turns restore every sticker, while one turn and two turns do not.
\<close>

theorem face_turn_has_order_four_not_eight:
  "rotateFaceArray (rotateFaceArray (rotateFaceArray (rotateFaceArray
       [10, 11, 12, 13, 14, 15, 16, 17, 18 :: nat] True) True) True) True
     = [10, 11, 12, 13, 14, 15, 16, 17, 18]
   \<and> rotateFaceArray [10, 11, 12, 13, 14, 15, 16, 17, 18 :: nat] True
     \<noteq> [10, 11, 12, 13, 14, 15, 16, 17, 18]
   \<and> rotateFaceArray (rotateFaceArray [10, 11, 12, 13, 14, 15, 16, 17, 18 :: nat] True) True
     \<noteq> [10, 11, 12, 13, 14, 15, 16, 17, 18]"
  by (simp add: rotateFaceArray_clockwise_explicit)

subsection \<open>Quarter turns of the whole state\<close>

lemma rotateFace_inverse:
  assumes "nine_each st"
  shows "rotateFace fc (\<not> cw) (rotateFace fc cw st) = st"
proof -
  from assms obtain u0 u1 u2 u3 u4 u5 u6 u7 u8 d0 d1 d2 d3 d4 d5 d6 d7 d8
          r0 r1 r2 r3 r4 r5 r6 r7 r8 l0 l1 l2 l3 l4 l5 l6 l7 l8
          f0 f1 f2 f3 f4 f5 f6 f7 f8 b0 b1 b2 b3 b4 b5 b6 b7 b8
    where st: "st = \<lparr>faceU = [u0, u1, u2, u3, u4, u5, u6, u7, u8],
                faceD = [d0, d1, d2, d3, d4, d5, d6, d7, d8],
                faceR = [r0, r1, r2, r3, r4, r5, r6, r7, r8],
                faceL = [l0, l1, l2, l3, l4, l5, l6, l7, l8],
                faceF = [f0, f1, f2, f3, f4, f5, f6, f7, f8],
                faceB = [b0, b1, b2, b3, b4, b5, b6, b7, b8]\<rparr>"
    by (rule nine_each_explicit)
  show ?thesis unfolding st
    by (cases fc; cases cw; simp add: turn_defs upt_rec)
qed

lemma rotateFace_twice_twice:
  assumes "nine_each st"
  shows "rotateFace fc cw (rotateFace fc cw (rotateFace fc cw (rotateFace fc cw st))) = st"
proof -
  from assms obtain u0 u1 u2 u3 u4 u5 u6 u7 u8 d0 d1 d2 d3 d4 d5 d6 d7 d8
          r0 r1 r2 r3 r4 r5 r6 r7 r8 l0 l1 l2 l3 l4 l5 l6 l7 l8
          f0 f1 f2 f3 f4 f5 f6 f7 f8 b0 b1 b2 b3 b4 b5 b6 b7 b8
    where st: "st = \<lparr>faceU = [u0, u1, u2, u3, u4, u5, u6, u7, u8],
                faceD = [d0, d1, d2, d3, d4, d5, d6, d7, d8],
                faceR = [r0, r1, r2, r3, r4, r5, r6, r7, r8],
                faceL = [l0, l1, l2, l3, l4, l5, l6, l7, l8],
                faceF = [f0, f1, f2, f3, f4, f5, f6, f7, f8],
                faceB = [b0, b1, b2, b3, b4, b5, b6, b7, b8]\<rparr>"
    by (rule nine_each_explicit)
  show ?thesis unfolding st
    by (cases fc; cases cw; simp add: turn_defs upt_rec)
qed

lemma rotateFace_nine_each:
  assumes "nine_each st"
  shows "nine_each (rotateFace fc cw st)"
proof -
  from assms obtain u0 u1 u2 u3 u4 u5 u6 u7 u8 d0 d1 d2 d3 d4 d5 d6 d7 d8
          r0 r1 r2 r3 r4 r5 r6 r7 r8 l0 l1 l2 l3 l4 l5 l6 l7 l8
          f0 f1 f2 f3 f4 f5 f6 f7 f8 b0 b1 b2 b3 b4 b5 b6 b7 b8
    where st: "st = \<lparr>faceU = [u0, u1, u2, u3, u4, u5, u6, u7, u8],
                faceD = [d0, d1, d2, d3, d4, d5, d6, d7, d8],
                faceR = [r0, r1, r2, r3, r4, r5, r6, r7, r8],
                faceL = [l0, l1, l2, l3, l4, l5, l6, l7, l8],
                faceF = [f0, f1, f2, f3, f4, f5, f6, f7, f8],
                faceB = [b0, b1, b2, b3, b4, b5, b6, b7, b8]\<rparr>"
    by (rule nine_each_explicit)
  show ?thesis unfolding st
    by (cases fc; cases cw; simp add: turn_defs upt_rec nine_each_def)
qed

lemma rotateFace_centre:
  assumes "nine_each st"
  shows "state_at (rotateFace fc cw st) g ! 4 = state_at st g ! 4"
proof -
  from assms obtain u0 u1 u2 u3 u4 u5 u6 u7 u8 d0 d1 d2 d3 d4 d5 d6 d7 d8
          r0 r1 r2 r3 r4 r5 r6 r7 r8 l0 l1 l2 l3 l4 l5 l6 l7 l8
          f0 f1 f2 f3 f4 f5 f6 f7 f8 b0 b1 b2 b3 b4 b5 b6 b7 b8
    where st: "st = \<lparr>faceU = [u0, u1, u2, u3, u4, u5, u6, u7, u8],
                faceD = [d0, d1, d2, d3, d4, d5, d6, d7, d8],
                faceR = [r0, r1, r2, r3, r4, r5, r6, r7, r8],
                faceL = [l0, l1, l2, l3, l4, l5, l6, l7, l8],
                faceF = [f0, f1, f2, f3, f4, f5, f6, f7, f8],
                faceB = [b0, b1, b2, b3, b4, b5, b6, b7, b8]\<rparr>"
    by (rule nine_each_explicit)
  show ?thesis unfolding st
    by (cases fc; cases cw; cases g; simp add: turn_defs upt_rec)
qed

lemma rotateFace_sum_list:
  fixes g :: "'a \<Rightarrow> nat"
  assumes "nine_each st"
  shows "sum_list (map g (all_stickers (rotateFace fc cw st))) = sum_list (map g (all_stickers st))"
proof -
  from assms obtain u0 u1 u2 u3 u4 u5 u6 u7 u8 d0 d1 d2 d3 d4 d5 d6 d7 d8
          r0 r1 r2 r3 r4 r5 r6 r7 r8 l0 l1 l2 l3 l4 l5 l6 l7 l8
          f0 f1 f2 f3 f4 f5 f6 f7 f8 b0 b1 b2 b3 b4 b5 b6 b7 b8
    where st: "st = \<lparr>faceU = [u0, u1, u2, u3, u4, u5, u6, u7, u8],
                faceD = [d0, d1, d2, d3, d4, d5, d6, d7, d8],
                faceR = [r0, r1, r2, r3, r4, r5, r6, r7, r8],
                faceL = [l0, l1, l2, l3, l4, l5, l6, l7, l8],
                faceF = [f0, f1, f2, f3, f4, f5, f6, f7, f8],
                faceB = [b0, b1, b2, b3, b4, b5, b6, b7, b8]\<rparr>"
    by (rule nine_each_explicit)
  show ?thesis unfolding st
    by (cases fc; cases cw; simp add: turn_defs upt_rec all_stickers_def)
qed

lemma count_list_as_sum: "count_list xs c = sum_list (map (\<lambda>x. if x = c then 1 else 0) xs)"
  by (induction xs) auto

lemma rotateFace_count_color:
  assumes "nine_each st"
  shows "count_color c (rotateFace fc cw st) = count_color c st"
  unfolding count_color_def count_list_as_sum by (rule rotateFace_sum_list[OF assms])

subsection \<open>Notations and their inverses\<close>

lemma parseMove_double_clockwise:
  "parseMove M = Some md \<Longrightarrow> double md \<Longrightarrow> clockwise md"
  by (auto simp: parseMove_def Let_def split: option.splits prod.splits)

lemma face_name_parse:
  "parseMove (face_name fc) = Some \<lparr>face = fc, clockwise = True, double = False\<rparr>"
  "parseMove (face_name fc @ [CHR 0x27]) = Some \<lparr>face = fc, clockwise = False, double = False\<rparr>"
  "parseMove (face_name fc @ ''2'') = Some \<lparr>face = fc, clockwise = True, double = True\<rparr>"
  by (cases fc; simp add: parseMove_def trim_def toUpperCase_def upper_char_def is_space_def)+

lemma parseMove_getReverseMove:
  assumes "parseMove M = Some md"
  shows "parseMove (getReverseMove M)
           = Some \<lparr>face = face md, clockwise = (double md \<or> \<not> clockwise md), double = double md\<rparr>"
  using assms parseMove_double_clockwise[OF assms]
  by (auto simp: getReverseMove_def face_name_parse)

lemma state_executeMove:
  "parseMove M = Some md \<Longrightarrow>
   state (snd (executeMove M s)) =
     (if double md
      then rotateFace (face md) (clockwise md) (rotateFace (face md) (clockwise md) (state s))
      else rotateFace (face md) (clockwise md) (state s))"
  by (simp add: executeMove_def checkCompleted_def Let_def)

lemma state_executeMove_invalid:
  "parseMove M = None \<Longrightarrow> executeMove M s = (False, s)"
  by (simp add: executeMove_def)

lemma fst_executeMove: "fst (executeMove M s) = (parseMove M \<noteq> None)"
  by (auto simp: executeMove_def checkCompleted_def Let_def split: option.splits)

lemma isCompleted_executeMove:
  "parseMove M = Some md \<Longrightarrow>
   isCompleted (snd (executeMove M s)) = all_faces_uniform (state (snd (executeMove M s)))"
  by (simp add: executeMove_def checkCompleted_def Let_def)

lemma executeMove_nine_each:
  assumes "nine_each (state s)"
  shows "nine_each (state (snd (executeMove M s)))"
proof (cases "parseMove M")
  case None
  with assms show ?thesis by (simp add: state_executeMove_invalid)
next
  case (Some md)
  with assms show ?thesis by (simp add: state_executeMove rotateFace_nine_each)
qed

lemma executeMove_then_reverse_state:
  assumes wf: "nine_each st" "st = state s" and M: "parseMove M = Some md"
  shows "state (snd (executeMove (getReverseMove M) (snd (executeMove M s)))) = state s"
proof -
  let ?f = "face md" and ?cw = "clockwise md"
  have rev: "parseMove (getReverseMove M)
           = Some \<lparr>face = ?f, clockwise = (double md \<or> \<not> ?cw), double = double md\<rparr>"
    by (rule parseMove_getReverseMove[OF M])
  show ?thesis
  proof (cases "double md")
    case True
    then have cw: "?cw" by (rule parseMove_double_clockwise[OF M])
    from True cw wf show ?thesis
      by (simp add: state_executeMove[OF rev] state_executeMove[OF M] rotateFace_twice_twice)
  next
    case False
    have "rotateFace ?f (\<not> ?cw) (rotateFace ?f ?cw (state s)) = state s"
      using wf by (simp add: rotateFace_inverse)
    with False show ?thesis
      by (simp add: state_executeMove[OF rev] state_executeMove[OF M])
  qed
qed

subsection \<open>What every reachable object satisfies\<close>

lemma undoLastMove_state:
  "state (snd (undoLastMove s)) =
     (if moveHistory s = [] then state s
      else state (snd (executeMove (getReverseMove (last (moveHistory s))) (s\<lparr>moveHistory := []\<rparr>))))"
  by (simp add: undoLastMove_def checkCompleted_def Let_def)

lemma reachable_nine_each: "reachable s \<Longrightarrow> nine_each (state s)"
proof (induction rule: reachable.induct)
  case constructed
  show ?case by (simp add: new_CubeState_def solved_nine_each)
next
  case (executed s move)
  then show ?case by (simp add: executeMove_nine_each)
next
  case (undone s)
  have "nine_each (state (s\<lparr>moveHistory := []\<rparr>))" using undone.IH by simp
  then have "nine_each (state (snd (executeMove (getReverseMove (last (moveHistory s)))
                 (s\<lparr>moveHistory := []\<rparr>))))"
    by (rule executeMove_nine_each)
  with undone.IH show ?case by (simp add: undoLastMove_state)
next
  case (was_reset s)
  show ?case by (simp add: reset_def solved_nine_each)
qed

lemma executeMove_count_color:
  assumes "nine_each (state s)"
  shows "count_color c (state (snd (executeMove M s))) = count_color c (state s)"
proof (cases "parseMove M")
  case None
  then show ?thesis by (simp add: state_executeMove_invalid)
next
  case (Some md)
  with assms show ?thesis
    by (simp add: state_executeMove rotateFace_count_color rotateFace_nine_each)
qed

lemma executeMove_centre:
  assumes "nine_each (state s)"
  shows "state_at (state (snd (executeMove M s))) g ! 4 = state_at (state s) g ! 4"
proof (cases "parseMove M")
  case None
  then show ?thesis by (simp add: state_executeMove_invalid)
next
  case (Some md)
  with assms show ?thesis
    by (simp add: state_executeMove rotateFace_centre rotateFace_nine_each)
qed

lemma solved_count_color: "count_color c solved_facelets = 9"
  by (cases c) (simp_all add: count_color_def all_stickers_def solved_facelets_def numeral_nat)

lemma reachable_count_color: "reachable s \<Longrightarrow> count_color c (state s) = 9"
proof (induction rule: reachable.induct)
  case constructed
  show ?case by (simp add: new_CubeState_def solved_count_color)
next
  case (executed s move)
  then show ?case by (simp add: executeMove_count_color reachable_nine_each)
next
  case (undone s)
  have "nine_each (state (s\<lparr>moveHistory := []\<rparr>))" using undone.hyps by (simp add: reachable_nine_each)
  then have "count_color c (state (snd (executeMove (getReverseMove (last (moveHistory s)))
                 (s\<lparr>moveHistory := []\<rparr>)))) = count_color c (state (s\<lparr>moveHistory := []\<rparr>))"
    by (rule executeMove_count_color)
  with undone.IH show ?case by (simp add: undoLastMove_state)
next
  case (was_reset s)
  show ?case by (simp add: reset_def solved_count_color)
qed

lemma reachable_centre:
  "reachable s \<Longrightarrow> state_at (state s) g ! 4 = state_at solved_facelets g ! 4"
proof (induction rule: reachable.induct)
  case constructed
  show ?case by (simp add: new_CubeState_def)
next
  case (executed s move)
  then show ?case by (simp add: executeMove_centre reachable_nine_each)
next
  case (undone s)
  have "nine_each (state (s\<lparr>moveHistory := []\<rparr>))" using undone.hyps by (simp add: reachable_nine_each)
  then have "state_at (state (snd (executeMove (getReverseMove (last (moveHistory s)))
                 (s\<lparr>moveHistory := []\<rparr>)))) g ! 4 = state_at (state (s\<lparr>moveHistory := []\<rparr>)) g ! 4"
    by (rule executeMove_centre)
  with undone.IH show ?case by (simp add: undoLastMove_state)
next
  case (was_reset s)
  show ?case by (simp add: reset_def)
qed

subsection \<open>The claims about the engine\<close>

text \<open>
  Claim C1, as amended.  For the faces R and L, with the neighbour-strip lists of the
  specification, \<open>rotateAdjacentEdges\<close> on a clockwise turn gives tuple \<open>i\<close> the old
  content of tuple \<open>i + 1\<close> (indices modulo 4), and on a counter-clockwise turn the old
  content of tuple \<open>i - 1\<close>, that is \<open>i + 3\<close> modulo 4.  The claim states the two
  directions the other way round.  On R and L this shift carries the ring of strips
  the same way round as \<open>rotateFaceArray\<close> carries the face; nothing is stated here
  about U, D, F and B.
\<close>

theorem rotateAdjacentEdges_shifts_strips:
  assumes "nine_each st" and "i < 4" and "fc = R \<or> fc = L"
  shows "read_strip (rotateAdjacentEdges fc True st) (spec_neighbor_strips fc ! i)
           = read_strip st (spec_neighbor_strips fc ! ((i + 1) mod 4))
         \<and> read_strip (rotateAdjacentEdges fc False st) (spec_neighbor_strips fc ! i)
           = read_strip st (spec_neighbor_strips fc ! ((i + 3) mod 4))"
proof -
  from assms(1) obtain u0 u1 u2 u3 u4 u5 u6 u7 u8 d0 d1 d2 d3 d4 d5 d6 d7 d8
          r0 r1 r2 r3 r4 r5 r6 r7 r8 l0 l1 l2 l3 l4 l5 l6 l7 l8
          f0 f1 f2 f3 f4 f5 f6 f7 f8 b0 b1 b2 b3 b4 b5 b6 b7 b8
    where st: "st = \<lparr>faceU = [u0, u1, u2, u3, u4, u5, u6, u7, u8],
                faceD = [d0, d1, d2, d3, d4, d5, d6, d7, d8],
                faceR = [r0, r1, r2, r3, r4, r5, r6, r7, r8],
                faceL = [l0, l1, l2, l3, l4, l5, l6, l7, l8],
                faceF = [f0, f1, f2, f3, f4, f5, f6, f7, f8],
                faceB = [b0, b1, b2, b3, b4, b5, b6, b7, b8]\<rparr>"
    by (rule nine_each_explicit)
  from assms(2) have i: "i = 0 \<or> i = 1 \<or> i = 2 \<or> i = 3" by linarith
  from assms(3) show ?thesis
  proof
    assume fc: "fc = R"
    from i show ?thesis unfolding st fc by (elim disjE) (simp_all add: turn_defs upt_rec)
  next
    assume fc: "fc = L"
    from i show ?thesis unfolding st fc by (elim disjE) (simp_all add: turn_defs upt_rec)
  qed
qed

theorem rotateAdjacentEdges_shifts_strips_witness:
  "nine_each solved_facelets \<and> (0 :: nat) < 4 \<and> (R = R \<or> R = L)
   \<and> read_strip (rotateAdjacentEdges R True solved_facelets) (U, [2, 5, 8]) = [blue, blue, blue]
   \<and> read_strip (rotateAdjacentEdges R False solved_facelets) (U, [2, 5, 8]) = [green, green, green]"
proof -
  have h1: "nine_each solved_facelets" by (rule solved_nine_each)
  have h2: "(0 :: nat) < 4" by simp
  have "read_strip solved_facelets (F, [2, 5, 8]) = [blue, blue, blue]"
       "read_strip solved_facelets (B, [6, 3, 0]) = [green, green, green]"
    by (simp_all add: read_strip_def solved_facelets_explicit)
  then show ?thesis
    using h1 h2 rotateAdjacentEdges_shifts_strips [OF h1 h2, of R]
    by simp
qed

text \<open>
  The claim as stated fails on the solved cube: after the clockwise strip rotation of R,
  tuple 1 (the F strip) holds the yellow stickers of tuple 2 (D), not the white ones of
  tuple 0 (U); after the counter-clockwise one it holds the white stickers of tuple 0,
  not the yellow ones of tuple 2.
\<close>

theorem strips_shift_opposite_to_claim:
  "read_strip (rotateAdjacentEdges R True solved_facelets) (spec_neighbor_strips R ! 1)
     \<noteq> read_strip solved_facelets (spec_neighbor_strips R ! 0)
   \<and> read_strip (rotateAdjacentEdges R False solved_facelets) (spec_neighbor_strips R ! 1)
     \<noteq> read_strip solved_facelets (spec_neighbor_strips R ! 2)"
  by (simp add: turn_defs upt_rec solved_facelets_explicit)

text \<open>
  Claim C2.  From every reachable object and for every notation \<open>M\<close> that \<open>parseMove\<close>
  accepts, \<open>executeMove(M)\<close> and then \<open>executeMove(getReverseMove(M))\<close> both succeed and
  leave every one of the 54 stickers where it was.  In particular, after \<open>reset\<close>,
  \<open>executeMove("R")\<close> and \<open>executeMove("R'")\<close> the sticker arrays are those of the reset
  state and \<open>isCompleted\<close> is true (the history then holds the two notations).
\<close>

theorem executeMove_reverse_restores:
  assumes "reachable s" and "parseMove M = Some md"
  shows "fst (executeMove M s)
         \<and> fst (executeMove (getReverseMove M) (snd (executeMove M s)))
         \<and> state (snd (executeMove (getReverseMove M) (snd (executeMove M s)))) = state s
         \<and> state (snd (executeMove (prime ''R'') (snd (executeMove ''R'' (reset s)))))
             = state (reset s)
         \<and> isCompleted (snd (executeMove (prime ''R'') (snd (executeMove ''R'' (reset s)))))
         \<and> moveHistory (snd (executeMove (prime ''R'') (snd (executeMove ''R'' (reset s)))))
             = [''R'', prime ''R'']"
proof -
  have wf: "nine_each (state s)" using assms(1) by (rule reachable_nine_each)
  have 1: "fst (executeMove M s)" using assms(2) by (simp add: fst_executeMove)
  have 2: "fst (executeMove (getReverseMove M) (snd (executeMove M s)))"
    by (simp add: fst_executeMove parseMove_getReverseMove[OF assms(2)])
  have 3: "state (snd (executeMove (getReverseMove M) (snd (executeMove M s)))) = state s"
    by (rule executeMove_then_reverse_state[OF wf refl assms(2)])
  have pR: "parseMove ''R'' = Some \<lparr>face = R, clockwise = True, double = False\<rparr>"
    using face_name_parse(1)[of R] by simp
  have pR': "parseMove (prime ''R'') = Some \<lparr>face = R, clockwise = False, double = False\<rparr>"
    using face_name_parse(2)[of R] by simp
  have rR: "getReverseMove ''R'' = prime ''R''"
    by (simp add: getReverseMove_def pR)
  have wfr: "nine_each (state (reset s))" by (simp add: reset_def solved_nine_each)
  have 4: "state (snd (executeMove (prime ''R'') (snd (executeMove ''R'' (reset s)))))
             = state (reset s)"
    using executeMove_then_reverse_state[OF wfr refl pR] by (simp only: rR)
  have "isCompleted (snd (executeMove (prime ''R'') (snd (executeMove ''R'' (reset s)))))
          = all_faces_uniform (state (reset s))"
    by (simp only: isCompleted_executeMove[OF pR'] 4)
  then have 5: "isCompleted (snd (executeMove (prime ''R'') (snd (executeMove ''R'' (reset s)))))"
    by (simp add: reset_def solved_facelets_def all_faces_uniform_def face_uniform_def numeral_nat)
  have 6: "moveHistory (snd (executeMove (prime ''R'') (snd (executeMove ''R'' (reset s)))))
             = [''R'', prime ''R'']"
    using pR pR' by (simp add: executeMove_def checkCompleted_def Let_def reset_def)
  from 1 2 3 4 5 6 show ?thesis by blast
qed

theorem executeMove_reverse_restores_witness:
  "reachable new_CubeState
   \<and> parseMove '' u2 '' = Some \<lparr>face = U, clockwise = True, double = True\<rparr>
   \<and> fst (executeMove '' u2 '' new_CubeState)
   \<and> getReverseMove '' u2 '' = ''U2''
   \<and> state (snd (executeMove ''U2'' (snd (executeMove '' u2 '' new_CubeState))))
       = state new_CubeState"
proof -
  have h1: "reachable new_CubeState" by (rule reachable.constructed)
  have h2: "parseMove '' u2 '' = Some \<lparr>face = U, clockwise = True, double = True\<rparr>"
    by code_simp
  have r: "getReverseMove '' u2 '' = ''U2''"
    by (simp add: getReverseMove_def h2)
  show ?thesis
    using h1 h2 r executeMove_reverse_restores [OF h1 h2] by simp
qed

text \<open>
  Claim C3.  In every object reachable from the constructor by \<open>executeMove\<close>,
  \<open>undoLastMove\<close> and \<open>reset\<close> there are 54 stickers, each colour is on exactly nine of
  them, and the stickers are a rearrangement of those of the solved cube.
\<close>

theorem reachable_nine_of_each_color:
  assumes "reachable s"
  shows "length (all_stickers (state s)) = 54
         \<and> count_color c (state s) = 9
         \<and> mset (all_stickers (state s)) = mset (all_stickers solved_facelets)"
proof -
  have wf: "nine_each (state s)" using assms by (rule reachable_nine_each)
  then have 1: "length (all_stickers (state s)) = 54"
    by (simp add: nine_each_def all_stickers_def)
  have 2: "count_color c (state s) = 9" for c
    using assms by (rule reachable_count_color)
  have "count (mset (all_stickers (state s))) c = count (mset (all_stickers solved_facelets)) c" for c
    using 2[of c] solved_count_color[of c] by (simp add: count_color_def count_mset)
  then have 3: "mset (all_stickers (state s)) = mset (all_stickers solved_facelets)"
    by (simp add: multiset_eq_iff)
  from 1 2 3 show ?thesis by blast
qed

theorem reachable_nine_of_each_color_witness:
  "reachable (snd (executeMove ''F'' new_CubeState))
   \<and> faceU (state (snd (executeMove ''F'' new_CubeState)))
       = [white, white, white, white, white, white, red, red, red]
   \<and> count_color red (state (snd (executeMove ''F'' new_CubeState))) = 9"
proof -
  have h: "reachable (snd (executeMove ''F'' new_CubeState))"
    by (rule reachable.executed[OF reachable.constructed])
  have p: "parseMove ''F'' = Some \<lparr>face = F, clockwise = True, double = False\<rparr>"
    using face_name_parse(1)[of F] by simp
  have u: "faceU (state (snd (executeMove ''F'' new_CubeState)))
       = [white, white, white, white, white, white, red, red, red]"
    by (simp add: state_executeMove[OF p] new_CubeState_def solved_facelets_explicit turn_defs
        upt_rec)
  show ?thesis
    using h u reachable_nine_of_each_color [OF h, of red] by simp
qed

section \<open>Properties of the optimiser\<close>

lemma count_run_takeWhile:
  "i + c \<le> length sol \<Longrightarrow>
   count_run sol i bf cw c = c + length (takeWhile (\<lambda>x. move_key x = (bf, cw)) (drop (i + c) sol))"
proof (induction sol i bf cw c rule: count_run.induct)
  case (1 sol i bf cw c)
  show ?case
  proof (cases "i + c < length sol")
    case False
    with "1.prems" show ?thesis by (subst count_run.simps) simp
  next
    case lt: True
    then have dr: "drop (i + c) sol = sol ! (i + c) # drop (i + (c + 1)) sol"
      by (simp add: Cons_nth_drop_Suc)
    show ?thesis
    proof (cases "move_key (sol ! (i + c)) = (bf, cw)")
      case True
      then have "count_run sol i bf cw c = count_run sol i bf cw (c + 1)"
        using lt by (subst count_run.simps) (simp add: Let_def move_key_def)
      also have "\<dots> = (c + 1) + length (takeWhile (\<lambda>x. move_key x = (bf, cw)) (drop (i + (c + 1)) sol))"
        using lt True by (intro "1.IH") (auto simp: move_key_def)
      finally show ?thesis using True by (simp add: dr)
    next
      case False
      then have "count_run sol i bf cw c = c"
        using lt by (subst count_run.simps) (auto simp: Let_def move_key_def)
      with False show ?thesis by (simp add: dr)
    qed
  qed
qed

lemma collapse_run_code:
  assumes "length run = cnt" and "hd run = currentMove"
  shows "optimized @ collapse_run run =
     (if cnt mod 4 = 1 then optimized @ [currentMove]
      else if cnt mod 4 = 2 then optimized @ [charAt0 currentMove @ ''2'']
      else if cnt mod 4 = 3
        then optimized @ [charAt0 currentMove @ (if \<not> includes_prime currentMove then [CHR 0x27] else [])]
      else optimized)"
proof -
  have "cnt mod 4 = 0 \<or> cnt mod 4 = 1 \<or> cnt mod 4 = 2 \<or> cnt mod 4 = 3" by presburger
  then show ?thesis using assms by (auto simp: collapse_run_def Let_def)
qed

lemma optimize_loop_runs:
  "i \<le> length sol \<Longrightarrow>
   optimize_loop sol i optimized = optimized @ concat (map collapse_run (maximal_runs (drop i sol)))"
proof (induction "length sol - i" arbitrary: i optimized rule: less_induct)
  case less
  show ?case
  proof (cases "i < length sol")
    case False
    with less.prems show ?thesis by (subst optimize_loop.simps) simp
  next
    case lt: True
    define m where "m = sol ! i"
    define ms where "ms = drop (i + 1) sol"
    define P where "P = (\<lambda>x. move_key x = move_key m)"
    define cnt where "cnt = count_run sol i (charAt0 m) (\<not> includes_prime m) 1"
    define optimized1 where "optimized1 =
               (if cnt mod 4 = 1 then optimized @ [m]
                else if cnt mod 4 = 2 then optimized @ [charAt0 m @ ''2'']
                else if cnt mod 4 = 3
                  then optimized @ [charAt0 m @ (if \<not> includes_prime m then [CHR 0x27] else [])]
                else optimized)"
    have dr: "drop i sol = m # ms"
      using lt by (simp add: m_def ms_def Cons_nth_drop_Suc)
    have cnt: "cnt = 1 + length (takeWhile P ms)"
      unfolding cnt_def P_def ms_def using lt
      by (subst count_run_takeWhile) (simp_all add: move_key_def)
    have le: "i + cnt \<le> length sol"
    proof -
      have "length (takeWhile P ms) \<le> length ms" by (rule length_takeWhile_le)
      also have "length ms = length sol - (i + 1)" by (simp add: ms_def)
      finally show ?thesis using lt cnt by simp
    qed
    have rest: "drop (i + cnt) sol = dropWhile P ms"
      by (simp add: cnt ms_def dropWhile_eq_drop add.commute add.left_commute)
    have step: "optimize_loop sol i optimized = optimize_loop sol (i + cnt) optimized1"
      using lt by (subst optimize_loop.simps) (simp add: Let_def m_def cnt_def optimized1_def)
    have IH: "optimize_loop sol (i + cnt) optimized1
               = optimized1 @ concat (map collapse_run (maximal_runs (drop (i + cnt) sol)))"
      using lt le cnt by (intro less.hyps) simp_all
    have o1: "optimized1 = optimized @ collapse_run (m # takeWhile P ms)"
      unfolding optimized1_def by (rule sym, rule collapse_run_code) (simp_all add: cnt)
    have "optimize_loop sol i optimized
            = optimized1 @ concat (map collapse_run (maximal_runs (dropWhile P ms)))"
      using step IH rest by simp
    then show ?thesis by (simp add: o1 dr P_def)
  qed
qed

lemma optimizeSolution_runs:
  "optimizeSolution solution = concat (map collapse_run (maximal_runs solution))"
  by (cases "solution = []") (simp_all add: optimizeSolution_def optimize_loop_runs)

text \<open>
  The runs are a partition of the sequence into non-empty blocks of one key, and two
  neighbouring blocks never have the same key: the blocks are maximal.
\<close>

lemma concat_maximal_runs: "concat (maximal_runs solution) = solution"
  by (induction solution rule: maximal_runs.induct) simp_all

lemma maximal_runs_uniform:
  "run \<in> set (maximal_runs solution) \<Longrightarrow>
     run \<noteq> [] \<and> (\<forall>x \<in> set run. move_key x = move_key (hd run))"
proof (induction solution rule: maximal_runs.induct)
  case 1
  then show ?case by simp
next
  case (2 m ms)
  let ?P = "\<lambda>x. move_key x = move_key m"
  from "2.prems" consider "run = m # takeWhile ?P ms"
    | "run \<in> set (maximal_runs (dropWhile ?P ms))" by auto
  then show ?case
  proof cases
    case 1
    have tw: "\<forall>x \<in> set (takeWhile ?P ms). ?P x" by (blast dest: set_takeWhileD)
    have ne: "run \<noteq> []" and hd: "hd run = m"
      and set: "set run = insert m (set (takeWhile ?P ms))"
      using 1 by simp_all
    show ?thesis
    proof (intro conjI ballI)
      show "run \<noteq> []" by (rule ne)
    next
      fix x assume "x \<in> set run"
      then have "x = m \<or> x \<in> set (takeWhile ?P ms)" unfolding set by blast
      then show "move_key x = move_key (hd run)" unfolding hd using tw by blast
    qed
  next
    case 2
    then show ?thesis by (rule "2.IH")
  qed
qed

lemma maximal_runs_nonempty: "[] \<notin> set (maximal_runs solution)"
  using maximal_runs_uniform by blast

lemma hd_hd_maximal_runs: "solution \<noteq> [] \<Longrightarrow> hd (hd (maximal_runs solution)) = hd solution"
  by (cases solution) simp_all

lemma maximal_runs_neighbours_differ:
  "Suc j < length (maximal_runs solution) \<Longrightarrow>
     move_key (hd (maximal_runs solution ! Suc j)) \<noteq> move_key (hd (maximal_runs solution ! j))"
proof (induction solution arbitrary: j rule: maximal_runs.induct)
  case 1
  then show ?case by simp
next
  case (2 m ms)
  let ?P = "\<lambda>x. move_key x = move_key m"
  let ?rest = "dropWhile ?P ms"
  show ?case
  proof (cases j)
    case 0
    with "2.prems" have ne: "?rest \<noteq> []" by (cases ?rest) auto
    then have "\<not> ?P (hd ?rest)" by (rule hd_dropWhile)
    moreover have "hd (hd (maximal_runs ?rest)) = hd ?rest" using ne by (rule hd_hd_maximal_runs)
    moreover from ne have "maximal_runs ?rest \<noteq> []" by (cases ?rest) auto
    ultimately show ?thesis using 0 by (simp add: hd_conv_nth)
  next
    case (Suc k)
    with "2.prems" "2.IH"[of k] show ?thesis by simp
  qed
qed

text \<open>
  Claim C8.  \<open>optimizeSolution\<close> replaces every maximal run of consecutive moves with
  the same base face and the same direction by what the run length \<open>k\<close> modulo 4 calls
  for: nothing for 0, the run's first move for 1, the half turn \<open>X2\<close> for 2, one turn
  the other way for 3.  The runs partition the input into non-empty blocks of one
  (face, direction) key each, and neighbouring blocks differ in that key.  In
  particular four \<open>R\<close> give nothing, two give \<open>R2\<close> and three give \<open>R'\<close>.
\<close>

theorem optimizeSolution_collapses_runs:
  "optimizeSolution solution = concat (map collapse_run (maximal_runs solution))
   \<and> concat (maximal_runs solution) = solution
   \<and> (\<forall>run \<in> set (maximal_runs solution).
         run \<noteq> [] \<and> (\<forall>x \<in> set run. move_key x = move_key (hd run)))
   \<and> (\<forall>j. Suc j < length (maximal_runs solution) \<longrightarrow>
         move_key (hd (maximal_runs solution ! Suc j)) \<noteq> move_key (hd (maximal_runs solution ! j)))
   \<and> optimizeSolution [''R'', ''R'', ''R'', ''R''] = []
   \<and> optimizeSolution [''R'', ''R''] = [''R2'']
   \<and> optimizeSolution [''R'', ''R'', ''R''] = [prime ''R'']"
proof -
  have ex: "optimizeSolution [''R'', ''R'', ''R'', ''R''] = []"
    "optimizeSolution [''R'', ''R''] = [''R2'']"
    "optimizeSolution [''R'', ''R'', ''R''] = [prime ''R'']"
    by (simp_all add: optimizeSolution_runs collapse_run_def move_key_def charAt0_def
        includes_prime_def)
  show ?thesis
    using optimizeSolution_runs concat_maximal_runs maximal_runs_uniform
      maximal_runs_neighbours_differ ex
    by blast
qed

theorem optimizeSolution_collapses_runs_witness:
  "maximal_runs [prime ''R'', prime ''R'', prime ''R'', ''U'', ''U'', ''F'', ''U'']
     = [[prime ''R'', prime ''R'', prime ''R''], [''U'', ''U''], [''F''], [''U'']]
   \<and> optimizeSolution [prime ''R'', prime ''R'', prime ''R'', ''U'', ''U'', ''F'', ''U'']
     = [''R'', ''U2'', ''F'', ''U'']"
proof -
  have runs: "maximal_runs [prime ''R'', prime ''R'', prime ''R'', ''U'', ''U'', ''F'', ''U'']
     = [[prime ''R'', prime ''R'', prime ''R''], [''U'', ''U''], [''F''], [''U'']]"
    by (simp add: move_key_def charAt0_def includes_prime_def)
  have "optimizeSolution [prime ''R'', prime ''R'', prime ''R'', ''U'', ''U'', ''F'', ''U'']
     = concat (map collapse_run
         (maximal_runs [prime ''R'', prime ''R'', prime ''R'', ''U'', ''U'', ''F'', ''U'']))"
    by (rule conjunct1 [OF optimizeSolution_collapses_runs])
  then show ?thesis
    unfolding runs by (simp add: collapse_run_def charAt0_def includes_prime_def)
qed

lemma executeMoves_Cons:
  "executeMoves (move # moves) s = executeMoves moves (snd (executeMove move s))"
  by (simp add: executeMoves_def)

lemma executeMoves_Nil: "executeMoves [] s = s"
  by (simp add: executeMoves_def)

lemma parse_R2: "parseMove ''R2'' = Some \<lparr>face = R, clockwise = True, double = True\<rparr>"
  using face_name_parse(3)[of R] by simp

lemma parse_R: "parseMove ''R'' = Some \<lparr>face = R, clockwise = True, double = False\<rparr>"
  using face_name_parse(1)[of R] by simp

text \<open>
  Claim C10.  A half-turn token counts as one clockwise element of a run:
  \<open>["R2", "R2"]\<close> and \<open>["R2", "R"]\<close> are both runs of length two and become \<open>["R2"]\<close>.
  On the solved cube the input \<open>R2 R2\<close> restores every sticker while the output \<open>R2\<close>
  does not, and the input \<open>R2 R\<close> and the output \<open>R2\<close> leave different arrangements.
\<close>

theorem optimizeSolution_half_turn_is_one_element:
  "optimizeSolution [''R2'', ''R2''] = [''R2'']
   \<and> optimizeSolution [''R2'', ''R''] = [''R2'']
   \<and> state (executeMoves [''R2'', ''R2''] new_CubeState) = solved_facelets
   \<and> state (executeMoves (optimizeSolution [''R2'', ''R2'']) new_CubeState) \<noteq> solved_facelets
   \<and> state (executeMoves [''R2'', ''R''] new_CubeState)
       \<noteq> state (executeMoves (optimizeSolution [''R2'', ''R'']) new_CubeState)"
proof -
  have o: "optimizeSolution [''R2'', ''R2''] = [''R2'']"
          "optimizeSolution [''R2'', ''R''] = [''R2'']"
    by (simp_all add: optimizeSolution_runs collapse_run_def move_key_def charAt0_def
        includes_prime_def)
  have a: "state (executeMoves [''R2'', ''R2''] new_CubeState) = solved_facelets"
    by (simp add: executeMoves_Cons executeMoves_Nil state_executeMove[OF parse_R2]
        new_CubeState_def rotateFace_twice_twice solved_nine_each)
  have b: "faceU (state (executeMoves [''R2''] new_CubeState))
             = [white, white, yellow, white, white, yellow, white, white, yellow]"
    by (simp add: executeMoves_Cons executeMoves_Nil state_executeMove[OF parse_R2]
        new_CubeState_def solved_facelets_explicit turn_defs upt_rec)
  have c: "faceU (state (executeMoves [''R2'', ''R''] new_CubeState))
             = [white, white, green, white, white, green, white, white, green]"
    by (simp add: executeMoves_Cons executeMoves_Nil state_executeMove[OF parse_R2]
        state_executeMove[OF parse_R] new_CubeState_def solved_facelets_explicit turn_defs upt_rec)
  have b': "state (executeMoves [''R2''] new_CubeState) \<noteq> solved_facelets"
    using b by (auto simp: solved_facelets_explicit)
  have c': "state (executeMoves [''R2'', ''R''] new_CubeState)
              \<noteq> state (executeMoves [''R2''] new_CubeState)"
    using b c by auto
  from o a b' c' show ?thesis by simp
qed

section \<open>Properties of the solver\<close>

subsection \<open>What a stage contributes to the move list\<close>

lemma apply_algorithm_eq:
  "apply_algorithm algorithm (s, moves) = (executeMoves algorithm s, moves @ algorithm)"
  by (induction algorithm arbitrary: s moves)
     (simp_all add: apply_algorithm_def executeMoves_def)

lemma starts_two_append: "starts_two xs \<Longrightarrow> starts_two (xs @ ys)"
  by (auto simp: starts_two_def)

lemma starts_two_not_Nil: "starts_two xs \<Longrightarrow> xs \<noteq> []"
  by (auto simp: starts_two_def)

lemma starts_two_optimizeSolution:
  assumes "starts_two xs"
  shows "optimizeSolution xs \<noteq> []"
proof -
  from assms obtain x y rest where xs: "xs = x # y # rest" and k: "move_key x \<noteq> move_key y"
    by (auto simp: starts_two_def)
  from k have "move_key y \<noteq> move_key x" by simp
  then have "maximal_runs xs = [x] # maximal_runs (y # rest)"
    unfolding xs by simp
  then show ?thesis
    by (simp add: optimizeSolution_runs collapse_run_def)
qed

lemma for_attempts_appends:
  assumes "appends_two t1 t2 body"
  shows "\<exists>extra. snd (for_attempts n a solved body (s, m)) = m @ extra"
proof (induction n arbitrary: a s m)
  case 0
  show ?case by simp
next
  case (Suc n)
  obtain d s1 where sv: "solved s = (d, s1)" by (cases "solved s")
  show ?case
  proof (cases d)
    case True
    with sv show ?thesis by simp
  next
    case False
    obtain s2 m2 where b: "body a (s1, m) = (s2, m2)" by (cases "body a (s1, m)")
    from assms obtain rest where "snd (body a (s1, m)) = m @ t1 # t2 # rest"
      unfolding appends_two_def by blast
    with b have m2: "m2 = m @ t1 # t2 # rest" by simp
    from Suc.IH[of "a + 1" s2 m2] obtain extra
      where "snd (for_attempts n (a + 1) solved body (s2, m2)) = m2 @ extra" by blast
    with sv False b m2 show ?thesis by simp
  qed
qed

lemma for_attempts_skips:
  assumes "solved s = (True, s1)"
  shows "for_attempts (Suc n) a solved body (s, m) = (s1, m)"
  using assms by simp

lemma for_attempts_runs:
  assumes ap: "appends_two t1 t2 body" and ns: "solved s = (False, s1)"
  shows "\<exists>rest. snd (for_attempts (Suc n) a solved body (s, m)) = m @ t1 # t2 # rest"
proof -
  obtain s2 m2 where b: "body a (s1, m) = (s2, m2)" by (cases "body a (s1, m)")
  from ap obtain rest where "snd (body a (s1, m)) = m @ t1 # t2 # rest"
    unfolding appends_two_def by blast
  with b have m2: "m2 = m @ t1 # t2 # rest" by simp
  from for_attempts_appends[OF ap, of n "a + 1" solved s2 m2] obtain extra
    where "snd (for_attempts n (a + 1) solved body (s2, m2)) = m2 @ extra" by blast
  with ns b m2 show ?thesis by simp
qed

lemma stage_runs_starts_two:
  assumes "appends_two t1 t2 body" and "solved s = (False, s1)" and "move_key t1 \<noteq> move_key t2"
  shows "starts_two (snd (for_attempts (Suc n) a solved body (s, [])))"
  using for_attempts_runs[of t1 t2 body solved s s1 n a "[]"] assms
  by (auto simp: starts_two_def)

lemma appends_two_template:
  "appends_two t1 t2 (\<lambda>attempts sm. apply_algorithm [u attempts] (apply_algorithm (t1 # t2 # others) sm))"
  by (simp add: appends_two_def apply_algorithm_eq)

lemma appends_two_template_let:
  "appends_two t1 t2
     (\<lambda>attempts sm. let sm1 = apply_algorithm (t1 # t2 # others) sm; randomU = u attempts
                     in apply_algorithm [randomU] sm1)"
  by (simp add: appends_two_def apply_algorithm_eq Let_def)

lemmas key_defs = move_key_def charAt0_def includes_prime_def

lemma solveWhiteCross_cases:
  "isWhiteCrossSolved s \<Longrightarrow> solveWhiteCross rnd s = (s, [])"
  "\<not> isWhiteCrossSolved s \<Longrightarrow> starts_two (snd (solveWhiteCross rnd s))"
proof -
  have n: "(20 :: nat) = Suc 19" by simp
  show "isWhiteCrossSolved s \<Longrightarrow> solveWhiteCross rnd s = (s, [])"
    unfolding solveWhiteCross_def n by (rule for_attempts_skips) (simp add: reads_def)
  show "\<not> isWhiteCrossSolved s \<Longrightarrow> starts_two (snd (solveWhiteCross rnd s))"
    unfolding solveWhiteCross_def n whiteCross_F_edge_wrong_def
    by (rule stage_runs_starts_two[OF appends_two_template_let, where ?s1.0 = s])
       (simp_all add: reads_def key_defs)
qed

lemma solveWhiteCorners_cases:
  "areWhiteCornersSolved s \<Longrightarrow> solveWhiteCorners s = (s, [])"
  "\<not> areWhiteCornersSolved s \<Longrightarrow> starts_two (snd (solveWhiteCorners s))"
proof -
  have n: "(30 :: nat) = Suc 29" by simp
  show "areWhiteCornersSolved s \<Longrightarrow> solveWhiteCorners s = (s, [])"
    unfolding solveWhiteCorners_def n by (rule for_attempts_skips) (simp add: reads_def)
  show "\<not> areWhiteCornersSolved s \<Longrightarrow> starts_two (snd (solveWhiteCorners s))"
    unfolding solveWhiteCorners_def n whiteCorners_rightHand_def
    by (rule stage_runs_starts_two[OF appends_two_template, where ?s1.0 = s])
       (simp_all add: reads_def key_defs)
qed

lemma solveSecondLayer_cases:
  "isSecondLayerSolved s \<Longrightarrow> solveSecondLayer s = (s, [])"
  "\<not> isSecondLayerSolved s \<Longrightarrow> starts_two (snd (solveSecondLayer s))"
proof -
  have n: "(25 :: nat) = Suc 24" by simp
  show "isSecondLayerSolved s \<Longrightarrow> solveSecondLayer s = (s, [])"
    unfolding solveSecondLayer_def n by (rule for_attempts_skips) (simp add: reads_def)
  show "\<not> isSecondLayerSolved s \<Longrightarrow> starts_two (snd (solveSecondLayer s))"
    unfolding solveSecondLayer_def n secondLayer_right_def
    by (rule stage_runs_starts_two[OF appends_two_template, where ?s1.0 = s])
       (simp_all add: reads_def key_defs)
qed

lemma solveYellowCross_cases:
  "isYellowCrossSolved s \<Longrightarrow> solveYellowCross s = (s, [])"
  "\<not> isYellowCrossSolved s \<Longrightarrow> starts_two (snd (solveYellowCross s))"
proof -
  have n: "(15 :: nat) = Suc 14" by simp
  show "isYellowCrossSolved s \<Longrightarrow> solveYellowCross s = (s, [])"
    unfolding solveYellowCross_def n by (rule for_attempts_skips) (simp add: reads_def)
  show "\<not> isYellowCrossSolved s \<Longrightarrow> starts_two (snd (solveYellowCross s))"
    unfolding solveYellowCross_def n yellowCross_dot_def
    by (rule stage_runs_starts_two[OF appends_two_template, where ?s1.0 = s])
       (simp_all add: reads_def key_defs)
qed

lemma orientYellowCorners_cases:
  "areYellowCornersOriented s \<Longrightarrow> orientYellowCorners s = (s, [])"
  "\<not> areYellowCornersOriented s \<Longrightarrow> starts_two (snd (orientYellowCorners s))"
proof -
  have n: "(20 :: nat) = Suc 19" by simp
  show "areYellowCornersOriented s \<Longrightarrow> orientYellowCorners s = (s, [])"
    unfolding orientYellowCorners_def n by (rule for_attempts_skips) (simp add: reads_def)
  show "\<not> areYellowCornersOriented s \<Longrightarrow> starts_two (snd (orientYellowCorners s))"
    unfolding orientYellowCorners_def n yellowCorners_sune_def
    by (rule stage_runs_starts_two[OF appends_two_template, where ?s1.0 = s])
       (simp_all add: reads_def key_defs)
qed

lemma permuteLastLayer_cases:
  "isSecondLayerSolved s \<Longrightarrow> all_faces_uniform (state s) \<Longrightarrow>
     snd (permuteLastLayer s) = []"
  "\<not> (isSecondLayerSolved s \<and> all_faces_uniform (state s)) \<Longrightarrow>
     starts_two (snd (permuteLastLayer s))"
proof -
  have n: "(10 :: nat) = Suc 9" by simp
  have skip1: "for_attempts (Suc 9) 0 (reads areLastLayerCornersSolved) body (s, []) = (s, [])"
    if "isSecondLayerSolved s" for body
    by (rule for_attempts_skips) (simp add: reads_def areLastLayerCornersSolved_def that)
  show "isSecondLayerSolved s \<Longrightarrow> all_faces_uniform (state s) \<Longrightarrow>
     snd (permuteLastLayer s) = []"
  proof -
    assume p: "isSecondLayerSolved s" and u: "all_faces_uniform (state s)"
    have "for_attempts (Suc 9) 0 areLastLayerEdgesSolved body (s, [])
            = (s\<lparr>isCompleted := True\<rparr>, [])" for body
      by (rule for_attempts_skips)
         (simp add: areLastLayerEdgesSolved_def checkCompleted_def Let_def u)
    then show ?thesis
      unfolding permuteLastLayer_def n Let_def by (simp only: skip1[OF p] snd_conv)
  qed
  show "starts_two (snd (permuteLastLayer s))"
    if h: "\<not> (isSecondLayerSolved s \<and> all_faces_uniform (state s))"
  proof (cases "isSecondLayerSolved s")
    case True
    with h have nu: "\<not> all_faces_uniform (state s)" by simp
    have "starts_two (snd (for_attempts (Suc 9) 0 areLastLayerEdgesSolved
           (\<lambda>attempts sm. apply_algorithm [''U''] (apply_algorithm edgePLL_adjacent sm)) (s, [])))"
      unfolding edgePLL_adjacent_def
      by (rule stage_runs_starts_two[OF appends_two_template,
            where ?s1.0 = "s\<lparr>isCompleted := False\<rparr>"])
         (simp_all add: areLastLayerEdgesSolved_def checkCompleted_def Let_def nu key_defs)
    then show ?thesis
      unfolding permuteLastLayer_def n Let_def by (simp only: skip1[OF True])
  next
    case False
    let ?body1 = "\<lambda>attempts sm. apply_algorithm [''U''] (apply_algorithm cornerPLL_clockwise sm)"
    let ?body2 = "\<lambda>attempts sm. apply_algorithm [''U''] (apply_algorithm edgePLL_adjacent sm)"
    obtain s1 m1 where r1: "for_attempts (Suc 9) 0 (reads areLastLayerCornersSolved) ?body1 (s, [])
                        = (s1, m1)"
      by (cases "for_attempts (Suc 9) 0 (reads areLastLayerCornersSolved) ?body1 (s, [])")
    have "starts_two (snd (for_attempts (Suc 9) 0 (reads areLastLayerCornersSolved) ?body1 (s, [])))"
      unfolding cornerPLL_clockwise_def
      by (rule stage_runs_starts_two[OF appends_two_template, where ?s1.0 = s])
         (simp_all add: reads_def areLastLayerCornersSolved_def False key_defs)
    with r1 have st: "starts_two m1" by simp
    have ap2: "appends_two ''R'' ''U'' ?body2"
      unfolding edgePLL_adjacent_def by (rule appends_two_template)
    from for_attempts_appends[OF ap2, of "Suc 9" 0 areLastLayerEdgesSolved s1 m1] obtain extra
      where "snd (for_attempts (Suc 9) 0 areLastLayerEdgesSolved ?body2 (s1, m1)) = m1 @ extra"
      by blast
    with st have "starts_two (snd (for_attempts (Suc 9) 0 areLastLayerEdgesSolved ?body2 (s1, m1)))"
      by (simp add: starts_two_append)
    then show ?thesis
      unfolding permuteLastLayer_def n Let_def by (simp only: r1)
  qed
qed

subsection \<open>When the solver has nothing to do\<close>

lemma createWorkingState_eq:
  "createWorkingState s =
     \<lparr>state = state s, moveHistory = moveHistory s, isCompleted = all_faces_uniform (state s)\<rparr>"
  by (simp add: createWorkingState_def setState_def getStateCopy_def getMoveHistory_def
      checkCompleted_def new_CubeState_def Let_def)

lemma solve_empty_iff:
  "solve rnd s = [] \<longleftrightarrow>
     (let ws = createWorkingState s in
      isWhiteCrossSolved ws \<and> areWhiteCornersSolved ws \<and> isSecondLayerSolved ws
      \<and> isYellowCrossSolved ws \<and> areYellowCornersOriented ws \<and> all_faces_uniform (state ws))"
proof -
  define ws where "ws = createWorkingState s"
  define r1 where "r1 = solveWhiteCross rnd ws"
  define r2 where "r2 = solveWhiteCorners (fst r1)"
  define r3 where "r3 = solveSecondLayer (fst r2)"
  define r4 where "r4 = solveYellowCross (fst r3)"
  define r5 where "r5 = orientYellowCorners (fst r4)"
  define r6 where "r6 = permuteLastLayer (fst r5)"
  have sol: "solve rnd s = optimizeSolution (snd r1 @ snd r2 @ snd r3 @ snd r4 @ snd r5 @ snd r6)"
    by (simp add: solve_def Let_def split_beta ws_def r1_def r2_def r3_def r4_def r5_def r6_def)
  have nonempty: "solve rnd s \<noteq> []" if "starts_two (snd r1 @ snd r2 @ snd r3 @ snd r4 @ snd r5 @ snd r6)"
    unfolding sol using that by (rule starts_two_optimizeSolution)
  show ?thesis
  proof (cases "isWhiteCrossSolved ws")
    case False
    then have "starts_two (snd r1)" unfolding r1_def by (rule solveWhiteCross_cases(2))
    then have "solve rnd s \<noteq> []" by (intro nonempty starts_two_append)
    with False show ?thesis by (simp add: Let_def ws_def)
  next
    case p1: True
    then have e1: "r1 = (ws, [])" unfolding r1_def by (rule solveWhiteCross_cases(1))
    show ?thesis
    proof (cases "areWhiteCornersSolved ws")
      case False
      then have "starts_two (snd r2)" unfolding r2_def e1 fst_conv by (rule solveWhiteCorners_cases(2))
      then have "solve rnd s \<noteq> []" by (intro nonempty) (simp add: e1 starts_two_append)
      with False show ?thesis by (simp add: Let_def ws_def)
    next
      case p2: True
      then have e2: "r2 = (ws, [])" unfolding r2_def e1 fst_conv by (rule solveWhiteCorners_cases(1))
      show ?thesis
      proof (cases "isSecondLayerSolved ws")
        case False
        then have "starts_two (snd r3)" unfolding r3_def e2 fst_conv by (rule solveSecondLayer_cases(2))
        then have "solve rnd s \<noteq> []" by (intro nonempty) (simp add: e1 e2 starts_two_append)
        with False show ?thesis by (simp add: Let_def ws_def)
      next
        case p3: True
        then have e3: "r3 = (ws, [])" unfolding r3_def e2 fst_conv by (rule solveSecondLayer_cases(1))
        show ?thesis
        proof (cases "isYellowCrossSolved ws")
          case False
          then have "starts_two (snd r4)" unfolding r4_def e3 fst_conv by (rule solveYellowCross_cases(2))
          then have "solve rnd s \<noteq> []" by (intro nonempty) (simp add: e1 e2 e3 starts_two_append)
          with False show ?thesis by (simp add: Let_def ws_def)
        next
          case p4: True
          then have e4: "r4 = (ws, [])" unfolding r4_def e3 fst_conv by (rule solveYellowCross_cases(1))
          show ?thesis
          proof (cases "areYellowCornersOriented ws")
            case False
            then have "starts_two (snd r5)"
              unfolding r5_def e4 fst_conv by (rule orientYellowCorners_cases(2))
            then have "solve rnd s \<noteq> []"
              by (intro nonempty) (simp add: e1 e2 e3 e4 starts_two_append)
            with False show ?thesis by (simp add: Let_def ws_def)
          next
            case p5: True
            then have e5: "r5 = (ws, [])"
              unfolding r5_def e4 fst_conv by (rule orientYellowCorners_cases(1))
            show ?thesis
            proof (cases "all_faces_uniform (state ws)")
              case False
              then have "starts_two (snd r6)"
                unfolding r6_def e5 fst_conv by (intro permuteLastLayer_cases(2)) simp
              then have "solve rnd s \<noteq> []"
                by (intro nonempty) (simp add: e1 e2 e3 e4 e5)
              with False show ?thesis by (simp add: Let_def ws_def)
            next
              case p6: True
              have "snd r6 = []"
                unfolding r6_def e5 fst_conv using p3 p6 by (rule permuteLastLayer_cases(1))
              then have "solve rnd s = []"
                unfolding sol by (simp add: e1 e2 e3 e4 e5 optimizeSolution_def)
              with p1 p2 p3 p4 p5 p6 show ?thesis by (simp add: Let_def ws_def)
            qed
          qed
        qed
      qed
    qed
  qed
qed

lemma uniform_nine:
  assumes "length xs = 9" and "face_uniform xs"
  shows "xs = replicate 9 (xs ! 4)"
proof -
  from assms(1) obtain a0 a1 a2 a3 a4 a5 a6 a7 a8
    where xs: "xs = [a0, a1, a2, a3, a4, a5, a6, a7, a8]" by (rule length9_explicit)
  from assms(2) show ?thesis unfolding xs by (simp add: face_uniform_def numeral_nat)
qed

lemma complete_home_predicates:
  assumes wf: "nine_each (state s)" and u: "all_faces_uniform (state s)"
    and d: "faceD (state s) ! 4 = yellow" and w: "faceU (state s) ! 4 = white"
  shows "isWhiteCrossSolved (createWorkingState s)"
    "areWhiteCornersSolved (createWorkingState s)"
    "isSecondLayerSolved (createWorkingState s)"
    "isYellowCrossSolved (createWorkingState s)"
    "areYellowCornersOriented (createWorkingState s)"
    "all_faces_uniform (state (createWorkingState s))"
proof -
  have D: "faceD (state s) = replicate 9 yellow"
    using uniform_nine[of "faceD (state s)"] wf u d
    by (simp add: nine_each_def all_faces_uniform_def)
  have U: "faceU (state s) = replicate 9 white"
    using uniform_nine[of "faceU (state s)"] wf u w
    by (simp add: nine_each_def all_faces_uniform_def)
  have side: "state_at (state s) f = replicate 9 (state_at (state s) f ! 4)" for f
    using uniform_nine[of "state_at (state s) f"] wf u
    by (cases f) (simp_all add: nine_each_def all_faces_uniform_def)
  show "isWhiteCrossSolved (createWorkingState s)"
    by (simp add: isWhiteCrossSolved_def createWorkingState_eq D)
  show "areWhiteCornersSolved (createWorkingState s)"
    by (simp add: areWhiteCornersSolved_def createWorkingState_eq D list_all_iff)
  show "isYellowCrossSolved (createWorkingState s)"
    by (simp add: isYellowCrossSolved_def createWorkingState_eq U)
  show "areYellowCornersOriented (createWorkingState s)"
    by (simp add: areYellowCornersOriented_def createWorkingState_eq U list_all_iff)
  show "all_faces_uniform (state (createWorkingState s))"
    using u by (simp add: createWorkingState_eq)
  have mid: "state_at (state s) f ! 3 = state_at (state s) f ! 4
           \<and> state_at (state s) f ! 5 = state_at (state s) f ! 4" for f
    by (subst (1 3) side) simp
  show "isSecondLayerSolved (createWorkingState s)"
    using mid[of F] mid[of R] mid[of B] mid[of L]
    by (simp add: isSecondLayerSolved_def createWorkingState_eq Let_def)
qed

text \<open>
  Claim C5, as amended.  On a cube of nine-sticker faces: if the cube is complete with
  a yellow D face and a white U face, \<open>solve\<close> returns the empty list, whatever the
  random draws; every complete cube reachable from the constructor by engine
  operations is of that kind; and \<open>solve\<close> returns the empty list only if the cube was
  complete.
\<close>

theorem solve_empty_on_complete_home_cube:
  assumes "nine_each (state s)"
  shows "(all_faces_uniform (state s) \<and> faceD (state s) ! 4 = yellow \<and> faceU (state s) ! 4 = white
            \<longrightarrow> solve rnd s = [])
         \<and> (reachable s \<and> all_faces_uniform (state s) \<longrightarrow> solve rnd s = [])
         \<and> (solve rnd s = [] \<longrightarrow> all_faces_uniform (state s))"
proof -
  have a: "solve rnd s = []"
    if "all_faces_uniform (state s)" "faceD (state s) ! 4 = yellow" "faceU (state s) ! 4 = white"
    using complete_home_predicates[OF assms that] by (simp add: solve_empty_iff Let_def)
  have b: "solve rnd s = []" if r: "reachable s" and u: "all_faces_uniform (state s)"
  proof -
    have "faceD (state s) ! 4 = yellow" "faceU (state s) ! 4 = white"
      using reachable_centre[OF r, of D] reachable_centre[OF r, of U]
      by (simp_all add: solved_facelets_explicit)
    with u show ?thesis by (intro a)
  qed
  have c: "all_faces_uniform (state s)" if "solve rnd s = []"
    using that by (simp add: solve_empty_iff Let_def createWorkingState_eq)
  from a b c show ?thesis by blast
qed

theorem solve_empty_on_complete_home_cube_witness:
  "nine_each (state new_CubeState) \<and> all_faces_uniform (state new_CubeState)
   \<and> faceD (state new_CubeState) ! 4 = yellow \<and> faceU (state new_CubeState) ! 4 = white
   \<and> reachable new_CubeState
   \<and> solve id new_CubeState = []"
proof -
  have h: "nine_each (state new_CubeState)" by (simp add: new_CubeState_def solved_nine_each)
  have u: "all_faces_uniform (state new_CubeState)"
    by (simp add: new_CubeState_def solved_facelets_explicit all_faces_uniform_def face_uniform_def)
  have c: "faceD (state new_CubeState) ! 4 = yellow" "faceU (state new_CubeState) ! 4 = white"
    by (simp_all add: new_CubeState_def solved_facelets_explicit)
  have r: "reachable new_CubeState" by (rule reachable.constructed)
  show ?thesis
    using h u c r solve_empty_on_complete_home_cube [OF h, of id] by blast
qed

text \<open>
  The claim as stated fails on a complete cube that \<open>setState\<close> can install: the solved
  colouring with the U face yellow and the D face white.  Every face is uniform and
  \<open>isCompleted\<close> is true, yet \<open>solve\<close> returns moves, since the first stage looks for
  yellow on D.
\<close>

theorem solve_nonempty_on_complete_flipped_cube:
  "all_faces_uniform
     (state (setState (solved_facelets\<lparr>faceU := replicate 9 yellow, faceD := replicate 9 white\<rparr>)
        new_CubeState))
   \<and> isCompleted
     (setState (solved_facelets\<lparr>faceU := replicate 9 yellow, faceD := replicate 9 white\<rparr>)
        new_CubeState)
   \<and> solve id
     (setState (solved_facelets\<lparr>faceU := replicate 9 yellow, faceD := replicate 9 white\<rparr>)
        new_CubeState) \<noteq> []"
proof -
  let ?s = "setState (solved_facelets\<lparr>faceU := replicate 9 yellow, faceD := replicate 9 white\<rparr>)
        new_CubeState"
  have st: "state ?s = solved_facelets\<lparr>faceU := replicate 9 yellow, faceD := replicate 9 white\<rparr>"
    by (simp add: setState_def checkCompleted_def Let_def)
  have u: "all_faces_uniform (state ?s)"
    unfolding st
    by (simp add: solved_facelets_explicit all_faces_uniform_def face_uniform_def list_all_iff)
  have f: "isCompleted ?s = all_faces_uniform (state ?s)"
    by (simp add: setState_def checkCompleted_def Let_def)
  have d: "faceD (state ?s) = replicate 9 white" by (simp add: st)
  have "\<not> isWhiteCrossSolved (createWorkingState ?s)"
    by (simp add: isWhiteCrossSolved_def createWorkingState_eq d Let_def)
  then have "solve id ?s \<noteq> []" by (simp add: solve_empty_iff Let_def)
  with u f show ?thesis by simp
qed

section \<open>Properties of the scramble generator\<close>

lemma draw_move_result:
  "draw_move rnd difficulty lastMove lastLastMove attempts k = (move, attempts', k')
     \<Longrightarrow> attempts' \<ge> 100 \<or> isValidMove move lastMove lastLastMove"
proof (induction rnd difficulty lastMove lastLastMove attempts k rule: draw_move.induct)
  case (1 rnd difficulty lastMove lastLastMove attempts k)
  define mv where "mv = baseMoves ! (rnd k mod length baseMoves) @
            (if difficulty = ''easy''
             then (if rnd (k + 1) mod 2 = 0 then [] else [CHR 0x27])
             else modifiers ! (rnd (k + 1) mod length modifiers))"
  have unfold: "draw_move rnd difficulty lastMove lastLastMove attempts k =
      (if attempts + 1 < 100 \<and> \<not> isValidMove mv lastMove lastLastMove
       then draw_move rnd difficulty lastMove lastLastMove (attempts + 1) (k + 2)
       else (mv, attempts + 1, k + 2))"
    unfolding mv_def by (subst draw_move.simps) (simp only: Let_def)
  show ?case
  proof (cases "attempts + 1 < 100 \<and> \<not> isValidMove mv lastMove lastLastMove")
    case True
    then have "draw_move rnd difficulty lastMove lastLastMove attempts k
                 = draw_move rnd difficulty lastMove lastLastMove (attempts + 1) (k + 2)"
      by (subst unfold) simp
    with "1.prems" have "draw_move rnd difficulty lastMove lastLastMove (attempts + 1) (k + 2)
                 = (move, attempts', k')" by simp
    with True show ?thesis
      by (intro "1.IH"[OF refl refl refl refl]) (simp_all add: mv_def)
  next
    case False
    then have "draw_move rnd difficulty lastMove lastLastMove attempts k = (mv, attempts + 1, k + 2)"
      by (subst unfold) auto
    with "1.prems" have "move = mv" "attempts' = attempts + 1" by simp_all
    with False show ?thesis by auto
  qed
qed

lemma no_immediate_repeat_iff:
  "no_immediate_repeat xs \<longleftrightarrow>
     (\<forall>i. i + 1 < length xs \<longrightarrow> extractFace (xs ! (i + 1)) \<noteq> extractFace (xs ! i))"
  by (auto simp: no_immediate_repeat_def list_all_iff)

lemma no_opposite_sandwich_iff:
  "no_opposite_sandwich xs \<longleftrightarrow>
     (\<forall>i. i + 2 < length xs \<longrightarrow>
        \<not> sandwich (extractFace (xs ! i)) (extractFace (xs ! (i + 1))) (extractFace (xs ! (i + 2))))"
  by (auto simp: no_opposite_sandwich_def list_all_iff)

lemma isValidMove_iff:
  "isValidMove move lastMove lastLastMove \<longleftrightarrow>
     extractFace move \<noteq> lastMove \<and> \<not> sandwich lastLastMove lastMove (extractFace move)"
  by (auto simp: isValidMove_def sandwich_def Let_def split: option.splits)

lemma no_immediate_repeat_snoc:
  assumes "no_immediate_repeat xs" and "extractFace m \<noteq> last_face xs"
  shows "no_immediate_repeat (xs @ [m])"
  unfolding no_immediate_repeat_iff
proof (intro allI impI)
  fix i assume i: "i + 1 < length (xs @ [m])"
  show "extractFace ((xs @ [m]) ! (i + 1)) \<noteq> extractFace ((xs @ [m]) ! i)"
  proof (cases "i + 1 < length xs")
    case True
    with assms(1) show ?thesis by (simp add: no_immediate_repeat_iff nth_append)
  next
    case False
    with i have il: "i + 1 = length xs" by simp
    then have "xs \<noteq> []" "i = length xs - 1" by auto
    with assms(2) il show ?thesis by (simp add: nth_append last_face_def)
  qed
qed

lemma no_opposite_sandwich_snoc:
  assumes "no_opposite_sandwich xs"
    and "\<not> sandwich (last_but_one_face xs) (last_face xs) (extractFace m)"
  shows "no_opposite_sandwich (xs @ [m])"
  unfolding no_opposite_sandwich_iff
proof (intro allI impI)
  fix i assume i: "i + 2 < length (xs @ [m])"
  show "\<not> sandwich (extractFace ((xs @ [m]) ! i)) (extractFace ((xs @ [m]) ! (i + 1)))
            (extractFace ((xs @ [m]) ! (i + 2)))"
  proof (cases "i + 2 < length xs")
    case True
    with assms(1) show ?thesis by (simp add: no_opposite_sandwich_iff nth_append)
  next
    case False
    with i have il: "i + 2 = length xs" by simp
    then have "\<not> length xs < 2" "xs \<noteq> []" "i = length xs - 2" "i + 1 = length xs - 1" by auto
    with assms(2) il show ?thesis
      by (simp add: nth_append last_face_def last_but_one_face_def)
  qed
qed

lemma last_faces_snoc:
  "last_face (xs @ [m]) = extractFace m"
  "last_but_one_face (xs @ [m]) = last_face xs"
  by (auto simp: last_face_def last_but_one_face_def nth_append)

lemma scramble_loop_rules:
  assumes "no_immediate_repeat scramble" and "no_opposite_sandwich scramble"
    and "lastMove = last_face scramble" and "lastLastMove = last_but_one_face scramble"
  shows "no_immediate_repeat (scramble_loop rnd difficulty left scramble lastMove lastLastMove k)
       \<and> no_opposite_sandwich (scramble_loop rnd difficulty left scramble lastMove lastLastMove k)"
  using assms
proof (induction left arbitrary: scramble lastMove lastLastMove k)
  case 0
  then show ?case by simp
next
  case (Suc left)
  obtain move attempts k1
    where d: "draw_move rnd difficulty lastMove lastLastMove 0 k = (move, attempts, k1)"
    by (cases "draw_move rnd difficulty lastMove lastLastMove 0 k") auto
  show ?case
  proof (cases "attempts \<ge> 100")
    case True
    with d Suc.prems show ?thesis by simp
  next
    case False
    with draw_move_result[OF d] have v: "isValidMove move lastMove lastLastMove" by simp
    then have f: "extractFace move \<noteq> last_face scramble"
      and s: "\<not> sandwich (last_but_one_face scramble) (last_face scramble) (extractFace move)"
      using Suc.prems(3,4) by (simp_all add: isValidMove_iff)
    have 1: "no_immediate_repeat (scramble @ [move])"
      using Suc.prems(1) f by (rule no_immediate_repeat_snoc)
    have 2: "no_opposite_sandwich (scramble @ [move])"
      using Suc.prems(2) s by (rule no_opposite_sandwich_snoc)
    have "no_immediate_repeat
            (scramble_loop rnd difficulty left (scramble @ [move]) (extractFace move) lastMove k1)
        \<and> no_opposite_sandwich
            (scramble_loop rnd difficulty left (scramble @ [move]) (extractFace move) lastMove k1)"
      using 1 2 by (rule Suc.IH) (simp_all add: last_faces_snoc Suc.prems(3))
    with d False show ?thesis by simp
  qed
qed

text \<open>
  Claim C7.  For every sequence of random draws, every requested length (absent, zero,
  positive or negative) and every difficulty string, the sequence \<open>generateScramble\<close>
  returns has no two neighbouring moves on the same face and nowhere three
  consecutive moves on faces A, opposite(A), A.
\<close>

theorem generateScramble_obeys_rules:
  "no_immediate_repeat (generateScramble rnd len difficulty)
   \<and> no_opposite_sandwich (generateScramble rnd len difficulty)"
  unfolding generateScramble_def Let_def
  by (rule scramble_loop_rules)
     (simp_all add: no_immediate_repeat_def no_opposite_sandwich_def last_face_def
        last_but_one_face_def)

theorem generateScramble_obeys_rules_witness:
  "generateScramble id (Some 3) ''easy'' = [prime ''R'', prime ''U'', prime ''F'']
   \<and> no_immediate_repeat (generateScramble id (Some 3) ''easy'')
   \<and> no_opposite_sandwich (generateScramble id (Some 3) ''easy'')"
proof -
  have e: "generateScramble id (Some 3) ''easy'' = [prime ''R'', prime ''U'', prime ''F'']"
    by code_simp
  show ?thesis
    using e generateScramble_obeys_rules [of id "Some 3" "''easy''"] by simp
qed

subsection \<open>The validator\<close>

lemma validate_loop_unfold:
  "i < length scrambleArray \<Longrightarrow>
   validate_loop scrambleArray i errs
     = validate_loop scrambleArray (i + 1) (errs @ violation_at scrambleArray i)"
  by (subst validate_loop.simps) (simp add: violation_at_def Let_def)

lemma validate_loop_done:
  "\<not> i < length scrambleArray \<Longrightarrow> validate_loop scrambleArray i errs = errs"
  by (subst validate_loop.simps) simp

lemma validate_loop_violations:
  "i \<le> length scrambleArray \<Longrightarrow>
   validate_loop scrambleArray i errs
     = errs @ concat (map (violation_at scrambleArray) [i..<length scrambleArray])"
proof (induction "length scrambleArray - i" arbitrary: i errs)
  case 0
  then show ?case by (simp add: validate_loop_done)
next
  case (Suc n)
  then have lt: "i < length scrambleArray" by simp
  have "validate_loop scrambleArray (i + 1) (errs @ violation_at scrambleArray i)
          = (errs @ violation_at scrambleArray i)
              @ concat (map (violation_at scrambleArray) [i + 1..<length scrambleArray])"
    using Suc.hyps(2) lt by (intro Suc.hyps(1)) simp_all
  then show ?case
    using lt by (simp add: validate_loop_unfold upt_conv_Cons)
qed

lemma errors_validateScramble:
  "errors (validateScramble scrambleArray)
     = concat (map (violation_at scrambleArray) [0..<length scrambleArray])"
  by (simp add: validateScramble_def Let_def validate_loop_violations)

text \<open>
  Claim C9, as amended.  The flag \<open>isValid\<close> is true exactly when the list of errors is
  empty.  The errors are, position by position in order, what \<open>violation_at\<close> gives:
  a move that breaks an adjacency rule at index \<open>i\<close> is reported with its 1-based
  position \<open>i + 1\<close> and the move; a move of invalid format is reported with the move
  only, without a position.
\<close>

theorem validateScramble_reports:
  "isValid (validateScramble scrambleArray) = (errors (validateScramble scrambleArray) = [])
   \<and> errors (validateScramble scrambleArray)
       = concat (map (violation_at scrambleArray) [0..<length scrambleArray])
   \<and> (\<forall>i < length scrambleArray.
         isValidMoveFormat (scrambleArray ! i) \<and> i > 0
         \<and> \<not> isValidMove (scrambleArray ! i) (extractFace (scrambleArray ! (i - 1)))
               (if i > 1 then extractFace (scrambleArray ! (i - 2)) else None)
         \<longrightarrow> (''Invalid move sequence at position '' @ show_nat (i + 1) @ '': '' @ scrambleArray ! i)
               \<in> set (errors (validateScramble scrambleArray)))
   \<and> (\<forall>i < length scrambleArray.
         \<not> isValidMoveFormat (scrambleArray ! i)
         \<longrightarrow> (''Invalid move format: '' @ scrambleArray ! i)
               \<in> set (errors (validateScramble scrambleArray)))"
proof -
  have 1: "isValid (validateScramble scrambleArray) = (errors (validateScramble scrambleArray) = [])"
    by (simp add: validateScramble_def Let_def)
  have mem: "e \<in> set (errors (validateScramble scrambleArray))"
    if "i < length scrambleArray" and "e \<in> set (violation_at scrambleArray i)" for i e
    unfolding errors_validateScramble using that by auto
  have 3: "(''Invalid move sequence at position '' @ show_nat (i + 1) @ '': '' @ scrambleArray ! i)
               \<in> set (errors (validateScramble scrambleArray))"
    if "i < length scrambleArray" and "isValidMoveFormat (scrambleArray ! i)" and "i > 0"
      and "\<not> isValidMove (scrambleArray ! i) (extractFace (scrambleArray ! (i - 1)))
               (if i > 1 then extractFace (scrambleArray ! (i - 2)) else None)" for i
    using that(2,3,4) by (intro mem[OF that(1)]) (simp add: violation_at_def Let_def)
  have 4: "(''Invalid move format: '' @ scrambleArray ! i)
               \<in> set (errors (validateScramble scrambleArray))"
    if "i < length scrambleArray" and "\<not> isValidMoveFormat (scrambleArray ! i)" for i
    using that(2) by (intro mem[OF that(1)]) (simp add: violation_at_def Let_def)
  from 1 errors_validateScramble 3 4 show ?thesis by blast
qed

theorem validateScramble_reports_witness:
  "errors (validateScramble [''X'', ''R'', ''R''])
     = [''Invalid move format: X'', ''Invalid move sequence at position 3: R'']
   \<and> isValid (validateScramble [''X'', ''R'', ''R'']) = False
   \<and> errors (validateScramble [''X'', ''R'', ''R''])
       = concat (map (violation_at [''X'', ''R'', ''R'']) [0..<length [''X'', ''R'', ''R'']])"
proof -
  have e: "errors (validateScramble [''X'', ''R'', ''R''])
     = [''Invalid move format: X'', ''Invalid move sequence at position 3: R'']"
    by code_simp
  have "isValid (validateScramble [''X'', ''R'', ''R''])
          = (errors (validateScramble [''X'', ''R'', ''R'']) = [])"
    and c: "errors (validateScramble [''X'', ''R'', ''R''])
       = concat (map (violation_at [''X'', ''R'', ''R'']) [0..<length [''X'', ''R'', ''R'']])"
    using validateScramble_reports [of "[''X'', ''R'', ''R'']"] by blast+
  with e show ?thesis by simp
qed

text \<open>
  The claim as stated fails for format errors: an ill-formed move at the second
  position and one at the first position produce the same single message, which
  names the move and no position.
\<close>

theorem format_error_carries_no_position:
  "errors (validateScramble [''R'', ''X'']) = [''Invalid move format: X'']
   \<and> errors (validateScramble [''X'', ''R'']) = [''Invalid move format: X'']"
  by code_simp

section \<open>The solver leaves the caller's cube alone\<close>

lemmas prog_defs = ret_def throw_def then_do_def catch_with_def alloc_def store_cell_def
  load_stickers_def load_notations_def load_table_def load_cube_def

subsection \<open>Rules for confined methods\<close>

lemma same_below_refl: "same_below n \<sigma> \<sigma>"
  by (simp add: same_below_def)

lemma same_below_trans: "same_below n \<sigma> \<sigma>1 \<Longrightarrow> same_below n \<sigma>1 \<sigma>2 \<Longrightarrow> same_below n \<sigma> \<sigma>2"
  by (simp add: same_below_def)

lemma confinedI:
  assumes "\<And>\<sigma>. owned n \<sigma> this \<Longrightarrow> \<exists>x \<sigma>'. p \<sigma> = (Some x, \<sigma>') \<and> owned n \<sigma>' this \<and> same_below n \<sigma> \<sigma>'"
  shows "confined n this p"
  using assms by (simp add: confined_def)

lemma confinedD:
  assumes "confined n this p" and "owned n \<sigma> this"
  obtains x \<sigma>' where "p \<sigma> = (Some x, \<sigma>')" "owned n \<sigma>' this" "same_below n \<sigma> \<sigma>'"
  using assms unfolding confined_def by blast

lemma confined_ret: "confined n this (ret x)"
  by (rule confinedI) (simp add: ret_def same_below_refl)

lemma confined_then_do:
  assumes p: "confined n this p" and f: "\<And>x. confined n this (f x)"
  shows "confined n this (then_do p f)"
proof (rule confinedI)
  fix \<sigma> assume o: "owned n \<sigma> this"
  from p o obtain x \<sigma>1 where 1: "p \<sigma> = (Some x, \<sigma>1)" "owned n \<sigma>1 this" "same_below n \<sigma> \<sigma>1"
    by (rule confinedD)
  from f[of x] 1(2) obtain y \<sigma>2
    where 2: "f x \<sigma>1 = (Some y, \<sigma>2)" "owned n \<sigma>2 this" "same_below n \<sigma>1 \<sigma>2"
    by (rule confinedD)
  have "then_do p f \<sigma> = (Some y, \<sigma>2)" by (simp add: then_do_def 1(1) 2(1))
  moreover have "same_below n \<sigma> \<sigma>2" using 1(3) 2(3) by (rule same_below_trans)
  ultimately show "\<exists>x \<sigma>'. then_do p f \<sigma> = (Some x, \<sigma>') \<and> owned n \<sigma>' this \<and> same_below n \<sigma> \<sigma>'"
    using 2(2) by blast
qed

lemma confined_catch_with:
  assumes "confined n this p"
  shows "confined n this (catch_with p handler)"
proof (rule confinedI)
  fix \<sigma> assume o: "owned n \<sigma> this"
  from assms o obtain x \<sigma>1 where 1: "p \<sigma> = (Some x, \<sigma>1)" "owned n \<sigma>1 this" "same_below n \<sigma> \<sigma>1"
    by (rule confinedD)
  then show "\<exists>x \<sigma>'. catch_with p handler \<sigma> = (Some x, \<sigma>') \<and> owned n \<sigma>' this \<and> same_below n \<sigma> \<sigma>'"
    by (simp add: catch_with_def)
qed

lemma confined_for_each:
  assumes "\<And>x. confined n this (body x)"
  shows "confined n this (for_each xs body)"
  by (induction xs) (simp_all add: confined_ret confined_then_do assms)

lemma confined_map_prog:
  assumes "\<And>x. confined n this (f x)"
  shows "confined n this (map_prog f xs)"
  by (induction xs) (simp_all add: confined_ret confined_then_do assms)

lemma confined_for_attempts_on:
  assumes "confined n this solved" and "\<And>k m. confined n this (body k m)"
  shows "confined n this (for_attempts_on left attempts solved body moves)"
  by (induction left arbitrary: attempts moves)
     (simp_all add: confined_ret confined_then_do assms)

subsection \<open>The methods of an owned instance are confined\<close>

lemma owned_face:
  assumes "owned n \<sigma> this"
  obtains sr hr fl tbl a xs where "cells \<sigma> this = Some (Cube sr hr fl)"
    "cells \<sigma> sr = Some (FaceTable tbl)" "tbl f = Some a" "n \<le> a"
    "cells \<sigma> a = Some (Stickers xs)" "length xs = 9"
  using assms unfolding owned_def by blast

lemma face_array_owned:
  assumes "owned n \<sigma> this"
  obtains a xs where "face_array this f \<sigma> = (Some a, \<sigma>)" "n \<le> a"
    "cells \<sigma> a = Some (Stickers xs)" "length xs = 9"
proof -
  from assms obtain sr hr fl tbl a xs where *: "cells \<sigma> this = Some (Cube sr hr fl)"
    "cells \<sigma> sr = Some (FaceTable tbl)" "tbl f = Some a" "n \<le> a"
    "cells \<sigma> a = Some (Stickers xs)" "length xs = 9"
    by (rule owned_face)
  then have "face_array this f \<sigma> = (Some a, \<sigma>)"
    by (simp add: face_array_def prog_defs)
  with * show thesis using that by blast
qed

lemma owned_set_stickers:
  assumes o: "owned n \<sigma> this" and a: "cells \<sigma> a = Some (Stickers xs)" and l: "length ys = 9"
  shows "owned n (\<sigma>\<lparr>cells := (cells \<sigma>)(a \<mapsto> Stickers ys)\<rparr>) this"
proof -
  from o obtain sr hr fl tbl hs where *:
    "cells \<sigma> this = Some (Cube sr hr fl)" "n \<le> this" "n \<le> sr" "n \<le> hr"
    "cells \<sigma> sr = Some (FaceTable tbl)" "cells \<sigma> hr = Some (Notations hs)"
    "\<forall>f. \<exists>b zs. tbl f = Some b \<and> n \<le> b \<and> cells \<sigma> b = Some (Stickers zs) \<and> length zs = 9"
    unfolding owned_def by blast
  from a * have ne: "a \<noteq> this" "a \<noteq> sr" "a \<noteq> hr" by auto
  have "\<exists>b zs. tbl f = Some b \<and> n \<le> b
           \<and> ((cells \<sigma>)(a \<mapsto> Stickers ys)) b = Some (Stickers zs) \<and> length zs = 9" for f
  proof -
    from *(7) obtain b zs where b: "tbl f = Some b" "n \<le> b" "cells \<sigma> b = Some (Stickers zs)"
      "length zs = 9" by blast
    show ?thesis
    proof (cases "b = a")
      case True
      with b l show ?thesis by simp
    next
      case False
      with b show ?thesis by simp
    qed
  qed
  with * ne show ?thesis unfolding owned_def by simp
qed

lemma same_below_set:
  assumes "n \<le> a"
  shows "same_below n \<sigma> (\<sigma>\<lparr>cells := (cells \<sigma>)(a \<mapsto> c)\<rparr>)"
  using assms by (simp add: same_below_def)

lemma confined_read_sticker: "confined n this (read_sticker this f idx)"
proof (rule confinedI)
  fix \<sigma> assume o: "owned n \<sigma> this"
  then obtain a xs where "face_array this f \<sigma> = (Some a, \<sigma>)" "cells \<sigma> a = Some (Stickers xs)"
    by (rule face_array_owned)
  then have "read_sticker this f idx \<sigma> = (Some (xs ! idx), \<sigma>)"
    by (simp add: read_sticker_def prog_defs)
  with o show "\<exists>x \<sigma>'. read_sticker this f idx \<sigma> = (Some x, \<sigma>') \<and> owned n \<sigma>' this \<and> same_below n \<sigma> \<sigma>'"
    by (simp add: same_below_refl)
qed

lemma confined_write_sticker: "confined n this (write_sticker this f idx v)"
proof (rule confinedI)
  fix \<sigma> assume o: "owned n \<sigma> this"
  then obtain a xs where a: "face_array this f \<sigma> = (Some a, \<sigma>)" "n \<le> a"
    "cells \<sigma> a = Some (Stickers xs)" "length xs = 9"
    by (rule face_array_owned)
  then have "write_sticker this f idx v \<sigma>
               = (Some (), \<sigma>\<lparr>cells := (cells \<sigma>)(a \<mapsto> Stickers (xs[idx := v]))\<rparr>)"
    by (simp add: write_sticker_def prog_defs)
  moreover have "owned n (\<sigma>\<lparr>cells := (cells \<sigma>)(a \<mapsto> Stickers (xs[idx := v]))\<rparr>) this"
    using o a(3) by (rule owned_set_stickers) (simp add: a(4))
  moreover have "same_below n \<sigma> (\<sigma>\<lparr>cells := (cells \<sigma>)(a \<mapsto> Stickers (xs[idx := v]))\<rparr>)"
    using a(2) by (rule same_below_set)
  ultimately show "\<exists>x \<sigma>'. write_sticker this f idx v \<sigma> = (Some x, \<sigma>') \<and> owned n \<sigma>' this
                     \<and> same_below n \<sigma> \<sigma>'"
    by blast
qed

lemma length_rotateFaceArray: "length (rotateFaceArray xs cw) = length xs"
  by (simp add: rotateFaceArray_def)

lemma confined_rotate_own_face:
  "confined n this (then_do (face_array this f) (\<lambda>a. rotateFaceArray_on a cw))"
proof (rule confinedI)
  fix \<sigma> assume o: "owned n \<sigma> this"
  then obtain a xs where a: "face_array this f \<sigma> = (Some a, \<sigma>)" "n \<le> a"
    "cells \<sigma> a = Some (Stickers xs)" "length xs = 9"
    by (rule face_array_owned)
  let ?\<sigma>' = "\<sigma>\<lparr>cells := (cells \<sigma>)(a \<mapsto> Stickers (rotateFaceArray xs cw))\<rparr>"
  from a have "then_do (face_array this f) (\<lambda>a. rotateFaceArray_on a cw) \<sigma> = (Some (), ?\<sigma>')"
    by (simp add: rotateFaceArray_on_def prog_defs)
  moreover have "owned n ?\<sigma>' this"
    using o a(3) by (rule owned_set_stickers) (simp add: a(4) length_rotateFaceArray)
  moreover have "same_below n \<sigma> ?\<sigma>'" using a(2) by (rule same_below_set)
  ultimately show "\<exists>x \<sigma>'. then_do (face_array this f) (\<lambda>a. rotateFaceArray_on a cw) \<sigma> = (Some x, \<sigma>')
                     \<and> owned n \<sigma>' this \<and> same_below n \<sigma> \<sigma>'"
    by blast
qed

lemma then_do_assoc: "then_do (then_do p f) g = then_do p (\<lambda>x. then_do (f x) g)"
  by (rule ext) (simp add: then_do_def split: prod.splits option.splits)

lemma confined_rotateAdjacentEdges_on: "confined n this (rotateAdjacentEdges_on this fc cw)"
  unfolding rotateAdjacentEdges_on_def Let_def split_def
  by (intro confined_then_do confined_map_prog confined_for_each confined_read_sticker
      confined_write_sticker)

lemma confined_rotateFace_on: "confined n this (rotateFace_on this fc cw)"
proof -
  have "rotateFace_on this fc cw
          = then_do (then_do (face_array this fc) (\<lambda>a. rotateFaceArray_on a cw))
              (\<lambda>_. rotateAdjacentEdges_on this fc cw)"
    by (simp add: rotateFace_on_def then_do_assoc)
  then show ?thesis
    by (simp add: confined_then_do confined_rotate_own_face confined_rotateAdjacentEdges_on)
qed

lemma confined_push_history: "confined n this (push_history this move)"
proof (rule confinedI)
  fix \<sigma> assume o: "owned n \<sigma> this"
  then obtain sr hr fl tbl hs where *:
    "cells \<sigma> this = Some (Cube sr hr fl)" "n \<le> this" "n \<le> sr" "n \<le> hr"
    "cells \<sigma> sr = Some (FaceTable tbl)" "cells \<sigma> hr = Some (Notations hs)"
    "\<forall>f. \<exists>b zs. tbl f = Some b \<and> n \<le> b \<and> cells \<sigma> b = Some (Stickers zs) \<and> length zs = 9"
    unfolding owned_def by blast
  let ?\<sigma>' = "\<sigma>\<lparr>cells := (cells \<sigma>)(hr \<mapsto> Notations (hs @ [move]))\<rparr>"
  from * have r: "push_history this move \<sigma> = (Some (), ?\<sigma>')"
    by (simp add: push_history_def prog_defs)
  from * have ne: "hr \<noteq> this" "hr \<noteq> sr" by auto
  have "\<exists>b zs. tbl f = Some b \<and> n \<le> b \<and> cells ?\<sigma>' b = Some (Stickers zs) \<and> length zs = 9" for f
  proof -
    from *(7) obtain b zs where b: "tbl f = Some b" "n \<le> b" "cells \<sigma> b = Some (Stickers zs)"
      "length zs = 9" by blast
    with *(6) have "b \<noteq> hr" by auto
    with b show ?thesis by simp
  qed
  with * ne have "owned n ?\<sigma>' this" unfolding owned_def by simp
  moreover have "same_below n \<sigma> ?\<sigma>'" using *(4) by (rule same_below_set)
  ultimately show "\<exists>x \<sigma>'. push_history this move \<sigma> = (Some x, \<sigma>') \<and> owned n \<sigma>' this
                     \<and> same_below n \<sigma> \<sigma>'"
    using r by blast
qed

lemma map_prog_reads:
  assumes "\<And>x. x \<in> set xs \<Longrightarrow> f x \<sigma> = (Some (g x), \<sigma>)"
  shows "map_prog f xs \<sigma> = (Some (map g xs), \<sigma>)"
  using assms by (induction xs) (simp_all add: prog_defs)

lemma confined_checkCompleted_on: "confined n this (checkCompleted_on this)"
proof (rule confinedI)
  fix \<sigma> assume o: "owned n \<sigma> this"
  then obtain sr hr fl tbl hs where *:
    "cells \<sigma> this = Some (Cube sr hr fl)" "n \<le> this" "n \<le> sr" "n \<le> hr"
    "cells \<sigma> sr = Some (FaceTable tbl)" "cells \<sigma> hr = Some (Notations hs)"
    "\<forall>f. \<exists>b zs. tbl f = Some b \<and> n \<le> b \<and> cells \<sigma> b = Some (Stickers zs) \<and> length zs = 9"
    unfolding owned_def by blast
  define g where "g = (\<lambda>f. case cells \<sigma> (the (tbl f)) of Some (Stickers zs) \<Rightarrow> face_uniform zs
                              | _ \<Rightarrow> False)"
  have rd: "(case tbl f of None \<Rightarrow> ret True
             | Some a \<Rightarrow> then_do (load_stickers a) (\<lambda>colors. ret (face_uniform colors))) \<sigma>
            = (Some (g f), \<sigma>)" for f
  proof -
    from *(7) obtain b zs where "tbl f = Some b" "cells \<sigma> b = Some (Stickers zs)" by blast
    then show ?thesis by (simp add: g_def prog_defs)
  qed
  define b where "b = list_all (\<lambda>x. x) (map g [U, D, R, L, F, B])"
  let ?\<sigma>' = "\<sigma>\<lparr>cells := (cells \<sigma>)(this \<mapsto> Cube sr hr b)\<rparr>"
  have mp: "map_prog (\<lambda>f. case tbl f of None \<Rightarrow> ret True
             | Some a \<Rightarrow> then_do (load_stickers a) (\<lambda>colors. ret (face_uniform colors)))
              [U, D, R, L, F, B] \<sigma> = (Some (map g [U, D, R, L, F, B]), \<sigma>)"
    by (rule map_prog_reads) (rule rd)
  have r: "checkCompleted_on this \<sigma> = (Some b, ?\<sigma>')"
    unfolding checkCompleted_on_def
    using *(1,5) mp
    by (simp add: then_do_def load_cube_def load_table_def store_cell_def ret_def Let_def b_def)
  from * have ne: "this \<noteq> sr" "this \<noteq> hr" by auto
  have "\<exists>c zs. tbl f = Some c \<and> n \<le> c \<and> cells ?\<sigma>' c = Some (Stickers zs) \<and> length zs = 9" for f
  proof -
    from *(7) obtain c zs where c: "tbl f = Some c" "n \<le> c" "cells \<sigma> c = Some (Stickers zs)"
      "length zs = 9" by blast
    with *(1) have "c \<noteq> this" by auto
    with c show ?thesis by simp
  qed
  with * ne have "owned n ?\<sigma>' this" unfolding owned_def by simp
  moreover have "same_below n \<sigma> ?\<sigma>'" using *(2) by (rule same_below_set)
  ultimately show "\<exists>x \<sigma>'. checkCompleted_on this \<sigma> = (Some x, \<sigma>') \<and> owned n \<sigma>' this
                     \<and> same_below n \<sigma> \<sigma>'"
    using r by blast
qed

lemma confined_executeMove_on: "confined n this (executeMove_on this move)"
  unfolding executeMove_on_def
  by (auto split: option.splits
      intro!: confined_ret confined_then_do confined_rotateFace_on confined_push_history
        confined_checkCompleted_on)

lemma confined_apply_algorithm_on: "confined n this (apply_algorithm_on this algorithm moves)"
  by (induction algorithm arbitrary: moves)
     (simp_all add: confined_ret confined_then_do confined_executeMove_on)

lemma confined_load_face:
  "confined n this (then_do (face_array this f) (\<lambda>a. then_do (load_stickers a) (\<lambda>xs. ret (g xs))))"
proof (rule confinedI)
  fix \<sigma> assume o: "owned n \<sigma> this"
  then obtain a xs where "face_array this f \<sigma> = (Some a, \<sigma>)" "cells \<sigma> a = Some (Stickers xs)"
    by (rule face_array_owned)
  then have "then_do (face_array this f) (\<lambda>a. then_do (load_stickers a) (\<lambda>xs. ret (g xs))) \<sigma>
               = (Some (g xs), \<sigma>)"
    by (simp add: prog_defs)
  with o show "\<exists>x \<sigma>'. then_do (face_array this f) (\<lambda>a. then_do (load_stickers a) (\<lambda>xs. ret (g xs))) \<sigma>
                   = (Some x, \<sigma>') \<and> owned n \<sigma>' this \<and> same_below n \<sigma> \<sigma>'"
    by (simp add: same_below_refl)
qed

lemma confined_predicates:
  "confined n this (isWhiteCrossSolved_on this)"
  "confined n this (areWhiteCornersSolved_on this)"
  "confined n this (isSecondLayerSolved_on this)"
  "confined n this (isYellowCrossSolved_on this)"
  "confined n this (areYellowCornersOriented_on this)"
  "confined n this (areLastLayerCornersSolved_on this)"
  "confined n this (areLastLayerEdgesSolved_on this)"
  unfolding isWhiteCrossSolved_on_def areWhiteCornersSolved_on_def isSecondLayerSolved_on_def
    isYellowCrossSolved_on_def areYellowCornersOriented_on_def areLastLayerCornersSolved_on_def
    areLastLayerEdgesSolved_on_def Let_def
  by (intro confined_load_face confined_then_do confined_map_prog confined_ret
      confined_checkCompleted_on)+

lemma confined_stages:
  "confined n this (solveWhiteCross_on rnd this)"
  "confined n this (solveWhiteCorners_on this)"
  "confined n this (solveSecondLayer_on this)"
  "confined n this (solveYellowCross_on this)"
  "confined n this (orientYellowCorners_on this)"
  "confined n this (permuteLastLayer_on this)"
  unfolding solveWhiteCross_on_def solveWhiteCorners_on_def solveSecondLayer_on_def
    solveYellowCross_on_def orientYellowCorners_on_def permuteLastLayer_on_def Let_def
  by (intro confined_for_attempts_on confined_then_do confined_apply_algorithm_on
      confined_predicates)+

subsection \<open>The working copy\<close>

lemma createWorkingState_on_result:
  assumes c: "cells \<sigma> c = Some (Cube sr hr fl)"
    and sr: "cells \<sigma> sr = Some (FaceTable tbl)"
    and hr: "cells \<sigma> hr = Some (Notations hs)"
    and tbl: "tbl U = Some aU" "tbl D = Some aD" "tbl R = Some aR"
             "tbl L = Some aL" "tbl F = Some aF" "tbl B = Some aB"
    and arr: "cells \<sigma> aU = Some (Stickers xU)" "cells \<sigma> aD = Some (Stickers xD)"
             "cells \<sigma> aR = Some (Stickers xR)" "cells \<sigma> aL = Some (Stickers xL)"
             "cells \<sigma> aF = Some (Stickers xF)" "cells \<sigma> aB = Some (Stickers xB)"
    and lt: "c < n" "sr < n" "hr < n" "aU < n" "aD < n" "aR < n" "aL < n" "aF < n" "aB < n"
    and n: "n = free \<sigma>"
  shows "\<exists>\<sigma>1 tbl1. createWorkingState_on c \<sigma> = (Some (n + 8), \<sigma>1)
           \<and> (\<forall>a<n. cells \<sigma>1 a = cells \<sigma> a)
           \<and> cells \<sigma>1 (n + 8) = Some (Cube (n + 22) (n + 24)
                 (list_all face_uniform [xU, xD, xR, xL, xF, xB]))
           \<and> cells \<sigma>1 (n + 22) = Some (FaceTable tbl1)
           \<and> tbl1 U = Some (n + 16) \<and> tbl1 D = Some (n + 17) \<and> tbl1 R = Some (n + 18)
           \<and> tbl1 L = Some (n + 19) \<and> tbl1 F = Some (n + 20) \<and> tbl1 B = Some (n + 21)
           \<and> cells \<sigma>1 (n + 24) = Some (Notations hs)
           \<and> cells \<sigma>1 (n + 16) = Some (Stickers xU) \<and> cells \<sigma>1 (n + 17) = Some (Stickers xD)
           \<and> cells \<sigma>1 (n + 18) = Some (Stickers xR) \<and> cells \<sigma>1 (n + 19) = Some (Stickers xL)
           \<and> cells \<sigma>1 (n + 20) = Some (Stickers xF) \<and> cells \<sigma>1 (n + 21) = Some (Stickers xB)"
  using assms
  by (simp add: createWorkingState_on_def new_CubeState_on_def getStateCopy_on_def
      setState_on_def getMoveHistory_on_def checkCompleted_on_def prog_defs Let_def)

text \<open>A well-formed instance, taken apart.\<close>

lemma cube_okE:
  assumes "cube_ok \<sigma> c"
  obtains sr hr fl tbl hs where
    "cells \<sigma> c = Some (Cube sr hr fl)" "cells \<sigma> sr = Some (FaceTable tbl)"
    "cells \<sigma> hr = Some (Notations hs)"
    "c < free \<sigma>" "sr < free \<sigma>" "hr < free \<sigma>"
    "\<forall>f. \<exists>a xs. tbl f = Some a \<and> a < free \<sigma> \<and> cells \<sigma> a = Some (Stickers xs) \<and> length xs = 9"
proof -
  from assms obtain sr hr fl where c: "cells \<sigma> c = Some (Cube sr hr fl)"
    by (auto simp: cube_ok_def split: option.splits cell.splits)
  with assms have b: "c < free \<sigma>" "sr < free \<sigma>" "hr < free \<sigma>"
    and h: "case cells \<sigma> hr of Some (Notations hs) \<Rightarrow> True | _ \<Rightarrow> False"
    and t: "case cells \<sigma> sr of
               Some (FaceTable tbl) \<Rightarrow>
                 list_all (\<lambda>f. case tbl f of
                                 None \<Rightarrow> False
                               | Some a \<Rightarrow> a < free \<sigma>
                                   \<and> (case cells \<sigma> a of
                                        Some (Stickers xs) \<Rightarrow> length xs = 9 | _ \<Rightarrow> False))
                   [U, D, R, L, F, B]
             | _ \<Rightarrow> False"
    by (simp_all add: cube_ok_def)
  from h obtain hs where hr: "cells \<sigma> hr = Some (Notations hs)"
    by (auto split: option.splits cell.splits)
  from t obtain tbl where sr: "cells \<sigma> sr = Some (FaceTable tbl)"
    by (auto split: option.splits cell.splits)
  define P where "P = (\<lambda>f. case tbl f of None \<Rightarrow> False
        | Some a \<Rightarrow> a < free \<sigma>
            \<and> (case cells \<sigma> a of Some (Stickers xs) \<Rightarrow> length xs = 9 | _ \<Rightarrow> False))"
  from t sr have "list_all P [U, D, R, L, F, B]" by (simp add: P_def)
  then have all: "P f" for f by (cases f) simp_all
  have "\<exists>a xs. tbl f = Some a \<and> a < free \<sigma> \<and> cells \<sigma> a = Some (Stickers xs) \<and> length xs = 9"
    for f
    using all[of f] unfolding P_def by (auto split: option.splits cell.splits)
  then have "\<forall>f. \<exists>a xs. tbl f = Some a \<and> a < free \<sigma> \<and> cells \<sigma> a = Some (Stickers xs)
                \<and> length xs = 9"
    by blast
  with c sr hr b show thesis by (rule that)
qed

lemma ran_six:
  assumes "tbl U = Some aU" "tbl D = Some aD" "tbl R = Some aR"
    "tbl L = Some aL" "tbl F = Some aF" "tbl B = Some aB"
  shows "ran tbl = {aU, aD, aR, aL, aF, aB}"
proof (intro equalityI subsetI)
  fix b assume "b \<in> ran tbl"
  then obtain f where f: "tbl f = Some b" unfolding ran_def by blast
  show "b \<in> {aU, aD, aR, aL, aF, aB}"
  proof (cases f)
    case U with f assms(1) show ?thesis by simp
  next
    case D with f assms(2) show ?thesis by simp
  next
    case R with f assms(3) show ?thesis by simp
  next
    case L with f assms(4) show ?thesis by simp
  next
    case F with f assms(5) show ?thesis by simp
  next
    case B with f assms(6) show ?thesis by simp
  qed
next
  fix b assume "b \<in> {aU, aD, aR, aL, aF, aB}"
  then consider "b = aU" | "b = aD" | "b = aR" | "b = aL" | "b = aF" | "b = aB" by blast
  then show "b \<in> ran tbl"
  proof cases
    case 1 with assms(1) show ?thesis by (simp add: ranI)
  next
    case 2 with assms(2) show ?thesis by (simp add: ranI)
  next
    case 3 with assms(3) show ?thesis by (simp add: ranI)
  next
    case 4 with assms(4) show ?thesis by (simp add: ranI)
  next
    case 5 with assms(5) show ?thesis by (simp add: ranI)
  next
    case 6 with assms(6) show ?thesis by (simp add: ranI)
  qed
qed

lemma same_below_cube:
  assumes ok: "cube_ok \<sigma> c" and sb: "same_below (free \<sigma>) \<sigma> \<sigma>'"
  shows "cube_value \<sigma>' c = cube_value \<sigma> c" and "arrays_of \<sigma>' c = arrays_of \<sigma> c"
    and "cube_value \<sigma> c \<noteq> None"
proof -
  from ok obtain sr hr fl tbl hs where *:
    "cells \<sigma> c = Some (Cube sr hr fl)" "cells \<sigma> sr = Some (FaceTable tbl)"
    "cells \<sigma> hr = Some (Notations hs)"
    and lt: "c < free \<sigma>" "sr < free \<sigma>" "hr < free \<sigma>"
    and faces: "\<forall>f. \<exists>a xs. tbl f = Some a \<and> a < free \<sigma> \<and> cells \<sigma> a = Some (Stickers xs)
                  \<and> length xs = 9"
    by (rule cube_okE)
  from faces obtain aU xU where u: "tbl U = Some aU" "aU < free \<sigma>"
    "cells \<sigma> aU = Some (Stickers xU)" by blast
  from faces obtain aD xD where d: "tbl D = Some aD" "aD < free \<sigma>"
    "cells \<sigma> aD = Some (Stickers xD)" by blast
  from faces obtain aR xR where r: "tbl R = Some aR" "aR < free \<sigma>"
    "cells \<sigma> aR = Some (Stickers xR)" by blast
  from faces obtain aL xL where l: "tbl L = Some aL" "aL < free \<sigma>"
    "cells \<sigma> aL = Some (Stickers xL)" by blast
  from faces obtain aF xF where f: "tbl F = Some aF" "aF < free \<sigma>"
    "cells \<sigma> aF = Some (Stickers xF)" by blast
  from faces obtain aB xB where b: "tbl B = Some aB" "aB < free \<sigma>"
    "cells \<sigma> aB = Some (Stickers xB)" by blast
  from sb lt u(2) d(2) r(2) l(2) f(2) b(2)
  have same: "cells \<sigma>' c = cells \<sigma> c" "cells \<sigma>' sr = cells \<sigma> sr"
    "cells \<sigma>' hr = cells \<sigma> hr" "cells \<sigma>' aU = cells \<sigma> aU" "cells \<sigma>' aD = cells \<sigma> aD"
    "cells \<sigma>' aR = cells \<sigma> aR" "cells \<sigma>' aL = cells \<sigma> aL" "cells \<sigma>' aF = cells \<sigma> aF"
    "cells \<sigma>' aB = cells \<sigma> aB"
    by (simp_all add: same_below_def)
  note tb = u(1) d(1) r(1) l(1) f(1) b(1)
  note ar = u(3) d(3) r(3) l(3) f(3) b(3)
  show "cube_value \<sigma>' c = cube_value \<sigma> c"
    by (simp add: cube_value_def faces_value_def same * tb ar)
  have "arrays_of \<sigma>' c = insert hr (ran tbl)" by (simp add: arrays_of_def same *)
  moreover have "arrays_of \<sigma> c = insert hr (ran tbl)" by (simp add: arrays_of_def *)
  ultimately show "arrays_of \<sigma>' c = arrays_of \<sigma> c" by simp
  show "cube_value \<sigma> c \<noteq> None"
    by (simp add: cube_value_def faces_value_def * tb ar)
qed

lemma confined_pipeline:
  "confined n w
     (then_do (catch_with
                (then_do (solveWhiteCross_on rnd w) (\<lambda>whiteCrossMoves.
                 then_do (solveWhiteCorners_on w) (\<lambda>whiteCornerMoves.
                 then_do (solveSecondLayer_on w) (\<lambda>secondLayerMoves.
                 then_do (solveYellowCross_on w) (\<lambda>yellowCrossMoves.
                 then_do (orientYellowCorners_on w) (\<lambda>yellowCornerMoves.
                 then_do (permuteLastLayer_on w) (\<lambda>lastLayerMoves.
                 ret (Some ([] @ whiteCrossMoves @ whiteCornerMoves @ secondLayerMoves
                        @ yellowCrossMoves @ yellowCornerMoves @ lastLayerMoves)))))))))
                (ret None)) (\<lambda>solution.
      case solution of
        None \<Rightarrow> ret getFallbackSolution
      | Some sol \<Rightarrow> ret (optimizeSolution sol)))"
proof -
  have fin: "confined n w (case solution of None \<Rightarrow> ret getFallbackSolution
                           | Some sol \<Rightarrow> ret (optimizeSolution sol))" for solution
    by (cases solution) (simp_all add: confined_ret)
  show ?thesis
    by (intro confined_then_do confined_catch_with confined_stages confined_ret fin)
qed

text \<open>
  Claim C6.  Let \<open>c\<close> be a well-formed instance in the store.  Then
  \<open>createWorkingState\<close> returns a new instance \<open>w\<close> whose value is the working copy of
  the value model (the caller's stickers and history, the flag recomputed), whose
  arrays are none of the caller's, and whose \<open>state\<close> object is not the caller's;
  \<open>solve\<close> returns normally; afterwards every cell that existed before the call is
  as it was, so the caller's instance has the same value (six face arrays, history,
  flag) and refers to the same arrays.
\<close>

theorem solve_on_works_on_private_copy:
  assumes "cube_ok \<sigma> c"
  shows "\<exists>w \<sigma>1 sol \<sigma>'.
           createWorkingState_on c \<sigma> = (Some w, \<sigma>1)
           \<and> w \<noteq> c
           \<and> cube_value \<sigma>1 w = map_option createWorkingState (cube_value \<sigma> c)
           \<and> cube_value \<sigma> c \<noteq> None
           \<and> arrays_of \<sigma>1 w \<inter> arrays_of \<sigma>1 c = {}
           \<and> solve_on rnd c \<sigma> = (Some sol, \<sigma>')
           \<and> same_below (free \<sigma>) \<sigma> \<sigma>'
           \<and> cube_value \<sigma>' c = cube_value \<sigma> c
           \<and> arrays_of \<sigma>' c = arrays_of \<sigma> c"
proof -
  define n where "n = free \<sigma>"
  from assms obtain sr hr fl tbl hs where c3:
    "cells \<sigma> c = Some (Cube sr hr fl)" "cells \<sigma> sr = Some (FaceTable tbl)"
    "cells \<sigma> hr = Some (Notations hs)"
    and lt3: "c < n" "sr < n" "hr < n"
    and faces: "\<forall>f. \<exists>a xs. tbl f = Some a \<and> a < n \<and> cells \<sigma> a = Some (Stickers xs)
                  \<and> length xs = 9"
    unfolding n_def by (rule cube_okE)
  from faces obtain aU xU where u: "tbl U = Some aU" "aU < n"
    "cells \<sigma> aU = Some (Stickers xU)" "length xU = 9" by blast
  from faces obtain aD xD where d: "tbl D = Some aD" "aD < n"
    "cells \<sigma> aD = Some (Stickers xD)" "length xD = 9" by blast
  from faces obtain aR xR where r: "tbl R = Some aR" "aR < n"
    "cells \<sigma> aR = Some (Stickers xR)" "length xR = 9" by blast
  from faces obtain aL xL where l: "tbl L = Some aL" "aL < n"
    "cells \<sigma> aL = Some (Stickers xL)" "length xL = 9" by blast
  from faces obtain aF xF where f: "tbl F = Some aF" "aF < n"
    "cells \<sigma> aF = Some (Stickers xF)" "length xF = 9" by blast
  from faces obtain aB xB where b: "tbl B = Some aB" "aB < n"
    "cells \<sigma> aB = Some (Stickers xB)" "length xB = 9" by blast
  note * = c3 u(1) d(1) r(1) l(1) f(1) b(1) u(3) d(3) r(3) l(3) f(3) b(3)
  note lt = lt3 u(2) d(2) r(2) l(2) f(2) b(2)
  note len = u(4) d(4) r(4) l(4) f(4) b(4)
  from createWorkingState_on_result[OF * lt n_def] obtain \<sigma>1 tbl1 where w:
    "createWorkingState_on c \<sigma> = (Some (n + 8), \<sigma>1)"
    "\<forall>a<n. cells \<sigma>1 a = cells \<sigma> a"
    "cells \<sigma>1 (n + 8) = Some (Cube (n + 22) (n + 24)
                 (list_all face_uniform [xU, xD, xR, xL, xF, xB]))"
    "cells \<sigma>1 (n + 22) = Some (FaceTable tbl1)"
    "tbl1 U = Some (n + 16)" "tbl1 D = Some (n + 17)" "tbl1 R = Some (n + 18)"
    "tbl1 L = Some (n + 19)" "tbl1 F = Some (n + 20)" "tbl1 B = Some (n + 21)"
    "cells \<sigma>1 (n + 24) = Some (Notations hs)"
    "cells \<sigma>1 (n + 16) = Some (Stickers xU)" "cells \<sigma>1 (n + 17) = Some (Stickers xD)"
    "cells \<sigma>1 (n + 18) = Some (Stickers xR)" "cells \<sigma>1 (n + 19) = Some (Stickers xL)"
    "cells \<sigma>1 (n + 20) = Some (Stickers xF)" "cells \<sigma>1 (n + 21) = Some (Stickers xB)"
    by blast
  have sb1: "same_below n \<sigma> \<sigma>1" using w(2) by (simp add: same_below_def)
  have 1: "n + 8 \<noteq> c" using lt(1) by simp
  have vc: "cube_value \<sigma> c
              = Some \<lparr>state = \<lparr>faceU = xU, faceD = xD, faceR = xR, faceL = xL, faceF = xF,
                               faceB = xB\<rparr>,
                      moveHistory = hs, isCompleted = fl\<rparr>"
    by (simp add: cube_value_def faces_value_def *)
  have vw: "cube_value \<sigma>1 (n + 8)
              = Some \<lparr>state = \<lparr>faceU = xU, faceD = xD, faceR = xR, faceL = xL, faceF = xF,
                               faceB = xB\<rparr>,
                      moveHistory = hs,
                      isCompleted = list_all face_uniform [xU, xD, xR, xL, xF, xB]\<rparr>"
    by (simp add: cube_value_def faces_value_def w)
  have 2: "cube_value \<sigma>1 (n + 8) = map_option createWorkingState (cube_value \<sigma> c)"
    unfolding vc vw by (simp add: createWorkingState_eq all_faces_uniform_def)
  have aw: "arrays_of \<sigma>1 (n + 8) = {n + 24, n + 16, n + 17, n + 18, n + 19, n + 20, n + 21}"
    by (simp add: arrays_of_def w(3,4) ran_six[OF w(5-10)])
  have ac: "arrays_of \<sigma> c = {hr, aU, aD, aR, aL, aF, aB}"
    by (simp add: arrays_of_def *(1,2) ran_six[OF *(4-9)])
  have ok: "cube_ok \<sigma> c" by (rule assms)
  have ac1: "arrays_of \<sigma>1 c = arrays_of \<sigma> c"
    using ok sb1 unfolding n_def by (rule same_below_cube(2))
  have 3: "arrays_of \<sigma>1 (n + 8) \<inter> arrays_of \<sigma>1 c = {}"
    unfolding ac1 aw ac using lt by auto
  have own: "owned n \<sigma>1 (n + 8)"
  proof -
    have "\<exists>a xs. tbl1 f = Some a \<and> n \<le> a \<and> cells \<sigma>1 a = Some (Stickers xs) \<and> length xs = 9" for f
      by (cases f) (simp_all add: w len)
    with w(3,4,11) show ?thesis unfolding owned_def by simp
  qed
  define rest where "rest = (\<lambda>stateCopy.
     then_do (catch_with
                (then_do (solveWhiteCross_on rnd stateCopy) (\<lambda>whiteCrossMoves.
                 then_do (solveWhiteCorners_on stateCopy) (\<lambda>whiteCornerMoves.
                 then_do (solveSecondLayer_on stateCopy) (\<lambda>secondLayerMoves.
                 then_do (solveYellowCross_on stateCopy) (\<lambda>yellowCrossMoves.
                 then_do (orientYellowCorners_on stateCopy) (\<lambda>yellowCornerMoves.
                 then_do (permuteLastLayer_on stateCopy) (\<lambda>lastLayerMoves.
                 ret (Some ([] @ whiteCrossMoves @ whiteCornerMoves @ secondLayerMoves
                        @ yellowCrossMoves @ yellowCornerMoves @ lastLayerMoves)))))))))
                (ret None)) (\<lambda>solution.
      case solution of
        None \<Rightarrow> ret getFallbackSolution
      | Some sol \<Rightarrow> ret (optimizeSolution sol)))"
  have so: "solve_on rnd c = then_do (createWorkingState_on c) rest"
    unfolding solve_on_def rest_def by (rule refl)
  have "confined n (n + 8) (rest (n + 8))" unfolding rest_def by (rule confined_pipeline)
  from this own obtain sol \<sigma>'
    where p: "rest (n + 8) \<sigma>1 = (Some sol, \<sigma>')" and sb2: "same_below n \<sigma>1 \<sigma>'"
    by (rule confinedD)
  have 4: "solve_on rnd c \<sigma> = (Some sol, \<sigma>')"
    by (simp add: so then_do_def w(1) p)
  have 5: "same_below (free \<sigma>) \<sigma> \<sigma>'"
    using sb1 sb2 unfolding n_def by (rule same_below_trans)
  note 6 = same_below_cube[OF ok 5]
  from w(1) 1 2 3 4 5 6 show ?thesis by blast
qed


theorem solve_on_works_on_private_copy_witness:
  "cube_ok (snd (new_CubeState_on empty_store)) 8
   \<and> (\<exists>w \<sigma>1 sol \<sigma>'.
           createWorkingState_on 8 (snd (new_CubeState_on empty_store)) = (Some w, \<sigma>1)
           \<and> w \<noteq> 8
           \<and> cube_value \<sigma>1 w
               = map_option createWorkingState (cube_value (snd (new_CubeState_on empty_store)) 8)
           \<and> cube_value (snd (new_CubeState_on empty_store)) 8 \<noteq> None
           \<and> arrays_of \<sigma>1 w \<inter> arrays_of \<sigma>1 8 = {}
           \<and> solve_on id 8 (snd (new_CubeState_on empty_store)) = (Some sol, \<sigma>')
           \<and> same_below (free (snd (new_CubeState_on empty_store)))
                 (snd (new_CubeState_on empty_store)) \<sigma>'
           \<and> cube_value \<sigma>' 8 = cube_value (snd (new_CubeState_on empty_store)) 8
           \<and> arrays_of \<sigma>' 8 = arrays_of (snd (new_CubeState_on empty_store)) 8)"
proof -
  have h: "cube_ok (snd (new_CubeState_on empty_store)) 8"
    by (simp add: cube_ok_def new_CubeState_on_def empty_store_def prog_defs)
  show ?thesis
    using h solve_on_works_on_private_copy [OF h, of id] by (rule conjI)
qed

end
